theory Spec2Isabelle
  imports Complex_Main "HOL-Library.Product_Lexorder" "HOL-Library.Multiset"
begin

section \<open>The data-cleaning pipeline of server/routes.ts (function cleanData)\<close>

text \<open>
  The development embeds \<^verbatim>\<open>cleanData\<close> of \<^verbatim>\<open>src/server/routes.ts\<close> (lines 80 to 305) and the
  JavaScript operations it relies on.

  Conventions of the embedding.
  \<^item> A JavaScript string is a \<open>string\<close> (a list of 8-bit characters). The string operations
    of the source (\<^verbatim>\<open>toLowerCase\<close>, the classes \<^verbatim>\<open>\s\<close> and \<^verbatim>\<open>\w\<close>, the numeric grammars) are
    given on ASCII; characters outside ASCII are neither white space nor letters.
  \<^item> A JavaScript number is an IEEE-754 double: \<open>NaN\<close>, an infinity or a finite value, given
    by the rational it denotes. Every arithmetic operation and every numeric literal rounds
    the exact result to the nearest double, ties to the even significand, and to an
    infinity beyond the largest double. The sign of zero is not represented: no operation
    of \<^verbatim>\<open>cleanData\<close> tells \<open>-0\<close> from \<open>0\<close>.
  \<^item> A cell holds \<^verbatim>\<open>null\<close>, \<^verbatim>\<open>undefined\<close>, a string or a number (section 3 of the
    specification). An object is the list of its own properties in enumeration order;
    properties inherited from \<^verbatim>\<open>Object.prototype\<close> are not represented.
  \<^item> The decimal rendering of a finite number, \<^verbatim>\<open>Date.parse\<close> and the calendar rendering of a
    time value are a parameter of the model (record \<open>host\<close>), so that the properties are seen
    to hold whatever they are; \<open>js_host\<close> gives the rendering of ECMAScript and
    \<^verbatim>\<open>Date.parse\<close> on the ISO date forms.
  \<^item> A thrown exception is a value \<open>Inl e\<close> of a sum type.
\<close>

subsection \<open>Numbers\<close>

datatype jsnum = NaN | NInf | Fin rat | PInf

text \<open>
  The number of binary digits of a positive integer, and the power \<open>2 ^ e\<close> for \<open>e \<ge> 0\<close>.
\<close>

function bit_length :: "int \<Rightarrow> int" where
  "bit_length n = (if n \<le> 0 then 0 else 1 + bit_length (n div 2))"
  by pat_completeness auto
termination
  by (relation "measure nat") auto

declare bit_length.simps [simp del]

function pow2 :: "int \<Rightarrow> int" where
  "pow2 e = (if e \<le> 0 then 1 else 2 * pow2 (e - 1))"
  by pat_completeness auto
termination
  by (relation "measure nat") auto

declare pow2.simps [simp del]

text \<open>The rational \<open>m * 2 ^ e\<close>, for any integer \<open>e\<close>.\<close>

definition scale2 :: "int \<Rightarrow> int \<Rightarrow> rat" where
  "scale2 m e = (if e < 0 then Fract m (pow2 (- e)) else of_int (m * pow2 e))"

text \<open>The integer nearest to \<open>n / d\<close> for \<open>d > 0\<close>, the even one of two that are equally near.\<close>

definition round_half_even :: "int \<Rightarrow> int \<Rightarrow> int" where
  "round_half_even n d =
     (let f = n div d; r = 2 * (n mod d)
      in if r < d then f else if d < r then f + 1 else if even f then f else f + 1)"

text \<open>The integer \<open>e\<close> with \<open>2 ^ e \<le> p / q < 2 ^ (e + 1)\<close>, for positive \<open>p\<close> and \<open>q\<close>.\<close>

definition binary_exponent :: "int \<Rightarrow> int \<Rightarrow> int" where
  "binary_exponent p q =
     (let e = bit_length p - bit_length q
      in if (if e < 0 then p * pow2 (- e) < q else p < q * pow2 e) then e - 1 else e)"

text \<open>
  The double of a rational (the rounding of ECMAScript from a mathematical value to a Number).
  A double has a significand of 53 binary digits and an exponent from -1022 to 1023, so the
  unit in the last place of a value with binary exponent \<open>E\<close> is \<open>2 ^ (max E (- 1022) - 52)\<close>;
  \<open>m\<close> is the value in these units, rounded, and a result of \<open>2 ^ 1024\<close> or more is infinite.
\<close>

definition to_double :: "rat \<Rightarrow> jsnum" where
  "to_double a =
     (if a = 0 then Fin 0
      else
        let (p, q) = quotient_of \<bar>a\<bar>;
            e = max (binary_exponent p q) (- 1022) - 52;
            m = (if e < 0 then round_half_even (p * pow2 (- e)) q
                 else round_half_even p (q * pow2 e))
        in if 1024 < bit_length m + e then (if a < 0 then NInf else PInf)
           else Fin (if a < 0 then - scale2 m e else scale2 m e))"

definition isNaN :: "jsnum \<Rightarrow> bool" where
  "isNaN n = (n = NaN)"

fun num_neg :: "jsnum \<Rightarrow> jsnum" where
  "num_neg NaN = NaN"
| "num_neg NInf = PInf"
| "num_neg PInf = NInf"
| "num_neg (Fin a) = Fin (- a)"

fun num_add :: "jsnum \<Rightarrow> jsnum \<Rightarrow> jsnum" where
  "num_add NaN _ = NaN"
| "num_add _ NaN = NaN"
| "num_add PInf NInf = NaN"
| "num_add NInf PInf = NaN"
| "num_add PInf _ = PInf"
| "num_add _ PInf = PInf"
| "num_add NInf _ = NInf"
| "num_add _ NInf = NInf"
| "num_add (Fin a) (Fin b) = to_double (a + b)"

definition num_sub :: "jsnum \<Rightarrow> jsnum \<Rightarrow> jsnum" where
  "num_sub a b = num_add a (num_neg b)"

definition num_sgn :: "jsnum \<Rightarrow> int" where
  "num_sgn n = (case n of NaN \<Rightarrow> 0 | NInf \<Rightarrow> - 1 | PInf \<Rightarrow> 1
                 | Fin a \<Rightarrow> (if a < 0 then - 1 else if a = 0 then 0 else 1))"

definition num_of_sgn :: "int \<Rightarrow> jsnum" where
  "num_of_sgn s = (if s < 0 then NInf else if s = 0 then NaN else PInf)"

fun num_mul :: "jsnum \<Rightarrow> jsnum \<Rightarrow> jsnum" where
  "num_mul NaN _ = NaN"
| "num_mul _ NaN = NaN"
| "num_mul (Fin a) (Fin b) = to_double (a * b)"
| "num_mul a b = num_of_sgn (num_sgn a * num_sgn b)"

fun num_div :: "jsnum \<Rightarrow> jsnum \<Rightarrow> jsnum" where
  "num_div NaN _ = NaN"
| "num_div _ NaN = NaN"
| "num_div (Fin a) (Fin b) = (if b = 0 then num_of_sgn (num_sgn (Fin a)) else to_double (a / b))"
| "num_div (Fin a) _ = Fin 0"
| "num_div a (Fin b) = num_of_sgn (num_sgn a * (if b < 0 then - 1 else 1))"
| "num_div _ _ = NaN"

text \<open>The order of the non-\<open>NaN\<close> numbers, as a key into a linear order.\<close>

fun num_key :: "jsnum \<Rightarrow> int \<times> rat" where
  "num_key NInf = (- 1, 0)"
| "num_key (Fin a) = (0, a)"
| "num_key PInf = (1, 0)"
| "num_key NaN = (2, 0)"

definition num_lt :: "jsnum \<Rightarrow> jsnum \<Rightarrow> bool" where
  "num_lt a b = (a \<noteq> NaN \<and> b \<noteq> NaN \<and> num_key a < num_key b)"

definition num_gt :: "jsnum \<Rightarrow> jsnum \<Rightarrow> bool" where
  "num_gt a b = num_lt b a"

text \<open>
  \<^verbatim>\<open>[...xs].sort((a, b) => a - b)\<close> on numbers none of which is \<open>NaN\<close>: the difference of two
  doubles, rounded, has the sign of the exact difference, and the difference of an infinity
  and itself is \<open>NaN\<close>, which the sort reads as 0. The comparator is a consistent order
  there, and the sort is stable.
\<close>

definition sort_numbers :: "jsnum list \<Rightarrow> jsnum list" where
  "sort_numbers xs = sort_key num_key xs"

subsection \<open>Cell values\<close>

datatype jsval = JNull | JUndefined | JStr string | JNum jsnum

text \<open>The test \<^verbatim>\<open>val === null || val === undefined || val === ""\<close> of the source.\<close>

definition is_missing :: "jsval \<Rightarrow> bool" where
  "is_missing v = (v = JNull \<or> v = JUndefined \<or> v = JStr [])"

text \<open>ToBoolean.\<close>

fun truthy :: "jsval \<Rightarrow> bool" where
  "truthy JNull = False"
| "truthy JUndefined = False"
| "truthy (JStr s) = (s \<noteq> [])"
| "truthy (JNum n) = (n \<noteq> NaN \<and> n \<noteq> Fin 0)"

subsection \<open>Characters and numeric grammars\<close>

definition is_space :: "char \<Rightarrow> bool" where
  "is_space c = (c \<in> set [CHR 0x09, CHR 0x0A, CHR 0x0B, CHR 0x0C, CHR 0x0D, CHR '' ''])"

definition digit_val :: "char \<Rightarrow> int option" where
  "digit_val c = map_of
     [(CHR ''0'', 0), (CHR ''1'', 1), (CHR ''2'', 2), (CHR ''3'', 3), (CHR ''4'', 4),
      (CHR ''5'', 5), (CHR ''6'', 6), (CHR ''7'', 7), (CHR ''8'', 8), (CHR ''9'', 9)] c"

definition hex_val :: "char \<Rightarrow> int option" where
  "hex_val c = (case digit_val c of Some d \<Rightarrow> Some d | None \<Rightarrow> map_of
     [(CHR ''a'', 10), (CHR ''b'', 11), (CHR ''c'', 12), (CHR ''d'', 13), (CHR ''e'', 14),
      (CHR ''f'', 15), (CHR ''A'', 10), (CHR ''B'', 11), (CHR ''C'', 12), (CHR ''D'', 13),
      (CHR ''E'', 14), (CHR ''F'', 15)] c)"

definition is_digit :: "char \<Rightarrow> bool" where
  "is_digit c = (digit_val c \<noteq> None)"

definition is_upper :: "char \<Rightarrow> bool" where
  "is_upper c = (c \<in> set ''ABCDEFGHIJKLMNOPQRSTUVWXYZ'')"

definition is_lower :: "char \<Rightarrow> bool" where
  "is_lower c = (c \<in> set ''abcdefghijklmnopqrstuvwxyz'')"

text \<open>The class \<^verbatim>\<open>\w\<close>.\<close>

definition is_word :: "char \<Rightarrow> bool" where
  "is_word c = (is_lower c \<or> is_upper c \<or> is_digit c \<or> c = CHR ''_'')"

definition lower_char :: "char \<Rightarrow> char" where
  "lower_char c = (case map_of (zip ''ABCDEFGHIJKLMNOPQRSTUVWXYZ'' ''abcdefghijklmnopqrstuvwxyz'') c
                     of Some l \<Rightarrow> l | None \<Rightarrow> c)"

definition toLowerCase :: "string \<Rightarrow> string" where
  "toLowerCase s = map lower_char s"

text \<open>\<^verbatim>\<open>.replace(/\s+/g, "_")\<close>: the flag says whether the previous character was white space.\<close>

fun collapse_ws :: "bool \<Rightarrow> string \<Rightarrow> string" where
  "collapse_ws inrun [] = []"
| "collapse_ws inrun (c # cs) =
     (if is_space c then (if inrun then collapse_ws True cs else CHR ''_'' # collapse_ws True cs)
      else c # collapse_ws False cs)"

text \<open>The column-name transform of lines 104 to 106.\<close>

definition clean_name :: "string \<Rightarrow> string" where
  "clean_name col = filter is_word (collapse_ws False (toLowerCase col))"

text \<open>The value of a digit string in a radix (most significant digit first).\<close>

definition digits_val :: "int \<Rightarrow> (char \<Rightarrow> int option) \<Rightarrow> string \<Rightarrow> int" where
  "digits_val radix dv ds = foldl (\<lambda>acc c. acc * radix + the (dv c)) 0 ds"

definition pow10 :: "int \<Rightarrow> rat" where
  "pow10 e = (if e < 0 then 1 / 10 ^ nat (- e) else 10 ^ nat e)"

text \<open>Splits an optional sign off: the sign as \<open>- 1\<close> or \<open>1\<close>, and the rest.\<close>

definition take_sign :: "string \<Rightarrow> int \<times> string" where
  "take_sign s = (case s of [] \<Rightarrow> (1, [])
     | c # cs \<Rightarrow> if c = CHR ''-'' then (- 1, cs) else if c = CHR ''+'' then (1, cs) else (1, s))"

text \<open>
  The longest prefix of the string that is a \<^verbatim>\<open>StrDecimalLiteral\<close> of ECMAScript (a sign, then
  \<^verbatim>\<open>Infinity\<close> or digits with an optional fraction and exponent): its value, rounded to a
  double, and the rest of the string, or \<open>None\<close> when no prefix is one.
\<close>

definition parse_exponent :: "string \<Rightarrow> int \<times> string" where
  "parse_exponent s = (case s of [] \<Rightarrow> (0, s)
     | c # cs \<Rightarrow>
        if c = CHR ''e'' \<or> c = CHR ''E'' then
          (let (sg, r) = take_sign cs; ds = takeWhile is_digit r
           in if ds = [] then (0, s) else (sg * digits_val 10 digit_val ds, dropWhile is_digit r))
        else (0, s))"

definition parse_decimal :: "string \<Rightarrow> (jsnum \<times> string) option" where
  "parse_decimal s =
     (let (sg, r) = take_sign s in
      if take 8 r = ''Infinity'' then Some (if sg < 0 then NInf else PInf, drop 8 r)
      else
        let ip = takeWhile is_digit r; r1 = dropWhile is_digit r;
            dot = (r1 \<noteq> [] \<and> hd r1 = CHR ''.'');
            fp = (if dot then takeWhile is_digit (tl r1) else []);
            r2 = (if dot then dropWhile is_digit (tl r1) else r1)
        in if ip = [] \<and> fp = [] then None
           else
             let (e, r3) = parse_exponent r2
             in Some (to_double (of_int sg * of_int (digits_val 10 digit_val (ip @ fp))
                                 * pow10 (e - int (length fp))), r3))"

definition ltrim :: "string \<Rightarrow> string" where
  "ltrim s = dropWhile is_space s"

definition trim :: "string \<Rightarrow> string" where
  "trim s = rev (dropWhile is_space (rev (dropWhile is_space s)))"

text \<open>\<^verbatim>\<open>parseFloat\<close> on a string.\<close>

definition parseFloat_str :: "string \<Rightarrow> jsnum" where
  "parseFloat_str s = (case parse_decimal (ltrim s) of None \<Rightarrow> NaN | Some (n, _) \<Rightarrow> n)"

text \<open>A literal with the prefix \<^verbatim>\<open>0x\<close>, \<^verbatim>\<open>0o\<close> or \<^verbatim>\<open>0b\<close> (either case), for \<^verbatim>\<open>Number\<close>.\<close>

definition radix_prefix :: "string \<Rightarrow> (int \<times> string) option" where
  "radix_prefix s = (case s of
       c0 # c1 # ds \<Rightarrow>
         if c0 = CHR ''0'' then
           (if c1 = CHR ''x'' \<or> c1 = CHR ''X'' then Some (16, ds)
            else if c1 = CHR ''o'' \<or> c1 = CHR ''O'' then Some (8, ds)
            else if c1 = CHR ''b'' \<or> c1 = CHR ''B'' then Some (2, ds)
            else None)
         else None
     | _ \<Rightarrow> None)"

definition radix_digit :: "int \<Rightarrow> char \<Rightarrow> bool" where
  "radix_digit radix c = (case hex_val c of None \<Rightarrow> False | Some d \<Rightarrow> d < radix)"

text \<open>\<^verbatim>\<open>Number\<close> on a string (StringToNumber).\<close>

definition Number_str :: "string \<Rightarrow> jsnum" where
  "Number_str s =
     (let t = trim s in
      if t = [] then Fin 0
      else case radix_prefix t of
          Some (radix, ds) \<Rightarrow>
            if ds \<noteq> [] \<and> list_all (radix_digit radix) ds
            then to_double (of_int (digits_val radix hex_val ds)) else NaN
        | None \<Rightarrow> (case parse_decimal t of Some (n, []) \<Rightarrow> n | _ \<Rightarrow> NaN))"

text \<open>\<^verbatim>\<open>parseInt\<close> on a string, with no radix argument.\<close>

definition parseInt_str :: "string \<Rightarrow> jsnum" where
  "parseInt_str s =
     (let (sg, r) = take_sign (ltrim s);
          hex = (case r of c0 # c1 # _ \<Rightarrow> c0 = CHR ''0'' \<and> (c1 = CHR ''x'' \<or> c1 = CHR ''X'')
                 | _ \<Rightarrow> False);
          radix = (if hex then 16 else 10);
          ds = takeWhile (radix_digit radix) (if hex then drop 2 r else r)
      in if ds = [] then NaN else to_double (of_int (sg * digits_val radix hex_val ds)))"

subsection \<open>The host\<close>

text \<open>
  \<open>numToString\<close> is \<^verbatim>\<open>Number::toString\<close> on a finite number, \<open>dateParse\<close> is \<^verbatim>\<open>Date.parse\<close> on
  a string (\<open>None\<close> for \<open>NaN\<close>, otherwise the time value in milliseconds), and \<open>isoDate\<close> is
  the part of \<^verbatim>\<open>toISOString()\<close> before the letter T, for a valid time value.
\<close>

record host =
  numToString :: "rat \<Rightarrow> string"
  dateParse :: "string \<Rightarrow> int option"
  isoDate :: "int \<Rightarrow> string"

text \<open>ToString on a number and on a cell value.\<close>

definition num_to_string :: "host \<Rightarrow> jsnum \<Rightarrow> string" where
  "num_to_string H n = (case n of NaN \<Rightarrow> ''NaN'' | PInf \<Rightarrow> ''Infinity'' | NInf \<Rightarrow> ''-Infinity''
                        | Fin a \<Rightarrow> numToString H a)"

definition to_string :: "host \<Rightarrow> jsval \<Rightarrow> string" where
  "to_string H v = (case v of JNull \<Rightarrow> ''null'' | JUndefined \<Rightarrow> ''undefined'' | JStr s \<Rightarrow> s
                    | JNum n \<Rightarrow> num_to_string H n)"

text \<open>
  \<^verbatim>\<open>parseFloat\<close> and \<^verbatim>\<open>Number\<close> on a cell value. \<^verbatim>\<open>parseFloat\<close> reads the decimal rendering
  of a number, which denotes the number again.
\<close>

definition parseFloat :: "jsval \<Rightarrow> jsnum" where
  "parseFloat v = (case v of JStr s \<Rightarrow> parseFloat_str s | JNum n \<Rightarrow> n | _ \<Rightarrow> NaN)"

definition Number :: "jsval \<Rightarrow> jsnum" where
  "Number v = (case v of JNull \<Rightarrow> Fin 0 | JUndefined \<Rightarrow> NaN | JStr s \<Rightarrow> Number_str s
               | JNum n \<Rightarrow> n)"

definition parseInt :: "host \<Rightarrow> jsval \<Rightarrow> jsnum" where
  "parseInt H v = parseInt_str (to_string H v)"

subsection \<open>Objects\<close>

text \<open>
  An object is the list of its own properties in the order \<^verbatim>\<open>Object.keys\<close> enumerates them:
  array indices first, in ascending order, then the other keys in the order of their
  creation. A list with a repeated key denotes no object; reading it gives the first entry.
\<close>

type_synonym 'v obj = "(string \<times> 'v) list"

type_synonym row = "jsval obj"

definition array_index :: "string \<Rightarrow> int option" where
  "array_index k =
     (if k \<noteq> [] \<and> list_all is_digit k \<and> (k = ''0'' \<or> hd k \<noteq> CHR ''0'')
         \<and> digits_val 10 digit_val k \<le> 4294967294
      then Some (digits_val 10 digit_val k) else None)"

definition obj_keys :: "'v obj \<Rightarrow> string list" where
  "obj_keys ob = map fst ob"

definition row_get :: "row \<Rightarrow> string \<Rightarrow> jsval" where
  "row_get r k = (case map_of r k of None \<Rightarrow> JUndefined | Some v \<Rightarrow> v)"

fun obj_replace :: "string \<Rightarrow> 'v \<Rightarrow> 'v obj \<Rightarrow> 'v obj" where
  "obj_replace k v [] = []"
| "obj_replace k v ((k', v') # es) =
     (if k' = k then (k, v) # es else (k', v') # obj_replace k v es)"

fun obj_insert_index :: "int \<Rightarrow> string \<Rightarrow> 'v \<Rightarrow> 'v obj \<Rightarrow> 'v obj" where
  "obj_insert_index n k v [] = [(k, v)]"
| "obj_insert_index n k v ((k', v') # es) =
     (case array_index k' of
        Some m \<Rightarrow> if m < n then (k', v') # obj_insert_index n k v es else (k, v) # (k', v') # es
      | None \<Rightarrow> (k, v) # (k', v') # es)"

text \<open>The assignment \<^verbatim>\<open>ob[k] = v\<close>, and \<^verbatim>\<open>{...ob, [k]: v}\<close> on a copy.\<close>

definition obj_set :: "'v obj \<Rightarrow> string \<Rightarrow> 'v \<Rightarrow> 'v obj" where
  "obj_set ob k v =
     (case map_of ob k of
        Some _ \<Rightarrow> obj_replace k v ob
      | None \<Rightarrow> (case array_index k of
                   Some n \<Rightarrow> obj_insert_index n k v ob
                 | None \<Rightarrow> ob @ [(k, v)]))"

subsection \<open>JSON.stringify of a row\<close>

definition hex_digit :: "nat \<Rightarrow> char" where
  "hex_digit n = ''0123456789abcdef'' ! n"

definition json_quote_char :: "char \<Rightarrow> string" where
  "json_quote_char c =
     (case map_of [(CHR 0x08, ''b''), (CHR 0x09, ''t''), (CHR 0x0A, ''n''), (CHR 0x0C, ''f''),
                   (CHR 0x0D, ''r''), (CHR 0x22, [CHR 0x22]), (CHR 0x5C, [CHR 0x5C])] c of
        Some e \<Rightarrow> CHR 0x5C # e
      | None \<Rightarrow>
          if (of_char c :: nat) < 32
          then [CHR 0x5C, CHR ''u'', CHR ''0'', CHR ''0'',
                hex_digit (of_char c div 16), hex_digit (of_char c mod 16)]
          else [c])"

definition json_quote :: "string \<Rightarrow> string" where
  "json_quote s = CHR 0x22 # concat (map json_quote_char s) @ [CHR 0x22]"

text \<open>A property whose value is \<^verbatim>\<open>undefined\<close> is left out; \<open>NaN\<close> and the infinities give \<^verbatim>\<open>null\<close>.\<close>

definition json_value :: "host \<Rightarrow> jsval \<Rightarrow> string option" where
  "json_value H v = (case v of JUndefined \<Rightarrow> None | JNull \<Rightarrow> Some ''null''
     | JStr s \<Rightarrow> Some (json_quote s)
     | JNum n \<Rightarrow> (case n of Fin a \<Rightarrow> Some (numToString H a) | _ \<Rightarrow> Some ''null''))"

fun join_with :: "string \<Rightarrow> string list \<Rightarrow> string" where
  "join_with sep [] = []"
| "join_with sep [x] = x"
| "join_with sep (x # y # ys) = x @ sep @ join_with sep (y # ys)"

definition JSON_stringify :: "host \<Rightarrow> row \<Rightarrow> string" where
  "JSON_stringify H r =
     ''{'' @ join_with '','' (List.map_filter
              (\<lambda>(k, v). map_option (\<lambda>j. json_quote k @ '':'' @ j) (json_value H v)) r) @ ''}''"

subsection \<open>Options, statistics and errors\<close>

datatype strategy = Mean | Median | Mode | Constant

record options =
  removeOutliers :: bool
  fixDataTypes :: bool
  standardizeColumnNames :: bool
  missingValueStrategy :: strategy
  constantValue :: "string option"

text \<open>The inferred types: the strings "string", "integer", "float" and "date" in the source.\<close>

datatype data_type = TString | TInteger | TFloat | TDate

record column_info =
  original :: string
  cleaned :: string
  type :: data_type

record stats =
  totalRows :: nat
  totalColumns :: nat
  duplicatesRemoved :: nat
  nullValuesFixed :: nat
  columnsRenamed :: "column_info list"
  dataTypeSummary :: "(data_type \<times> nat) list"
  outlierCount :: nat

text \<open>
  \<open>InvalidDataFormat\<close> is \<^verbatim>\<open>new Error("Invalid data format")\<close> of line 82; \<open>TypeError\<close> is the
  exception of the runtime on the call of a value that is no function or on a property read
  of \<^verbatim>\<open>undefined\<close>.
\<close>

datatype error = InvalidDataFormat | TypeError

text \<open>The argument \<^verbatim>\<open>rawData\<close>: an array of rows, or any value that is no array.\<close>

datatype rawdata = NotArray | Rows "row list"

text \<open>A loop (\<^verbatim>\<open>forEach\<close>, \<^verbatim>\<open>reduce\<close>) whose body may throw.\<close>

fun fold_err :: "('s \<Rightarrow> 'a \<Rightarrow> error + 's) \<Rightarrow> 'a list \<Rightarrow> 's \<Rightarrow> error + 's" where
  "fold_err f [] s = Inr s"
| "fold_err f (x # xs) s = (case f s x of Inl e \<Rightarrow> Inl e | Inr s' \<Rightarrow> fold_err f xs s')"

subsection \<open>Step 1: column names and inferred types (lines 95 to 141)\<close>

definition numeric_ok :: "jsval \<Rightarrow> bool" where
  "numeric_ok v = (is_missing v \<or> \<not> isNaN (Number v))"

definition date_ok :: "host \<Rightarrow> jsval \<Rightarrow> bool" where
  "date_ok H v = (is_missing v \<or> dateParse H (to_string H v) \<noteq> None)"

text \<open>
  \<^verbatim>\<open>sampleValues.some(val => val && val.includes("."))\<close>: a truthy value that is no string
  has no method \<^verbatim>\<open>includes\<close>, and the call throws.
\<close>

fun some_includes_dot :: "jsval list \<Rightarrow> error + bool" where
  "some_includes_dot [] = Inr False"
| "some_includes_dot (v # vs) =
     (if truthy v then
        (case v of JStr s \<Rightarrow> if CHR ''.'' \<in> set s then Inr True else some_includes_dot vs
         | _ \<Rightarrow> Inl TypeError)
      else some_includes_dot vs)"

definition infer_type :: "host \<Rightarrow> jsval list \<Rightarrow> error + data_type" where
  "infer_type H sampleValues =
     (if list_all numeric_ok sampleValues then
        (case some_includes_dot sampleValues of
           Inl e \<Rightarrow> Inl e
         | Inr b \<Rightarrow> Inr (if b then TFloat else TInteger))
      else if list_all (date_ok H) sampleValues then Inr TDate
      else Inr TString)"

definition bump_summary :: "(data_type \<times> nat) list \<Rightarrow> data_type \<Rightarrow> (data_type \<times> nat) list" where
  "bump_summary summary t =
     (case map_of summary t of
        None \<Rightarrow> summary @ [(t, 1)]
      | Some c \<Rightarrow> map (\<lambda>(t', c'). if t' = t then (t', c' + 1) else (t', c')) summary)"

text \<open>The body of the \<^verbatim>\<open>reduce\<close> over the original columns.\<close>

definition standardize_column ::
  "host \<Rightarrow> row list \<Rightarrow> string obj \<times> stats \<Rightarrow> string \<Rightarrow> error + (string obj \<times> stats)" where
  "standardize_column H data accst col =
     (let (acc, st) = accst;
          cleanedCol = clean_name col;
          sampleValues = map (\<lambda>r. row_get r col) (take 100 data)
      in case infer_type H sampleValues of
           Inl e \<Rightarrow> Inl e
         | Inr dataType \<Rightarrow>
             Inr (obj_set acc col cleanedCol,
                  st\<lparr>columnsRenamed := columnsRenamed st
                        @ [\<lparr>original = col, cleaned = cleanedCol, type = dataType\<rparr>],
                     dataTypeSummary := bump_summary (dataTypeSummary st) dataType\<rparr>))"

definition rename_row :: "string obj \<Rightarrow> row \<Rightarrow> row" where
  "rename_row columnMapping r =
     foldl (\<lambda>newRow (originalCol, cleanedCol). obj_set newRow cleanedCol (row_get r originalCol))
       [] columnMapping"

definition standardize :: "host \<Rightarrow> row list \<Rightarrow> stats \<Rightarrow> error + (row list \<times> stats)" where
  "standardize H data st =
     (case data of
        [] \<Rightarrow> Inl TypeError
      | first # _ \<Rightarrow>
          (case fold_err (standardize_column H data) (obj_keys first) ([], st) of
             Inl e \<Rightarrow> Inl e
           | Inr (columnMapping, st') \<Rightarrow> Inr (map (rename_row columnMapping) data, st')))"

subsection \<open>Step 2: duplicates (lines 143 to 156)\<close>

text \<open>The \<^verbatim>\<open>filter\<close> with the set \<^verbatim>\<open>uniqueRows\<close> of the serialisations seen so far.\<close>

fun dedupe_filter :: "host \<Rightarrow> string set \<Rightarrow> row list \<Rightarrow> row list" where
  "dedupe_filter H uniqueRows [] = []"
| "dedupe_filter H uniqueRows (r # rs) =
     (let rowStr = JSON_stringify H r
      in if rowStr \<in> uniqueRows then dedupe_filter H uniqueRows rs
         else r # dedupe_filter H (insert rowStr uniqueRows) rs)"

text \<open>The deduplicated rows and \<^verbatim>\<open>data.length - dedupedData.length\<close>.\<close>

definition dedupe :: "host \<Rightarrow> row list \<Rightarrow> row list \<times> nat" where
  "dedupe H data =
     (let dedupedData = dedupe_filter H {} data
      in (dedupedData, length data - length dedupedData))"

subsection \<open>Step 3: missing values (lines 158 to 224)\<close>

text \<open>
  The \<^verbatim>\<open>reduce\<close> that counts the values in an object keyed by the string of each value:
  \<^verbatim>\<open>acc[val] = (acc[val] || 0) + 1\<close>.
\<close>

definition count_values :: "string list \<Rightarrow> nat obj" where
  "count_values ks =
     foldl (\<lambda>acc k. obj_set acc k ((case map_of acc k of None \<Rightarrow> 0 | Some c \<Rightarrow> c) + 1)) [] ks"

text \<open>
  \<^verbatim>\<open>Object.entries(counts).sort((a, b) => b[1] - a[1])[0][0]\<close>: the sort is stable, and the
  read of element 0 of \<^verbatim>\<open>undefined\<close> throws when there is no entry.
\<close>

definition most_common :: "nat obj \<Rightarrow> error + string" where
  "most_common counts =
     (case sort_key (\<lambda>(k, c). - int c) counts of
        [] \<Rightarrow> Inl TypeError
      | (k, c) # _ \<Rightarrow> Inr k)"

text \<open>
  The mean and the median of lines 188 to 194. The sum is rounded after each addition, in
  the order of the \<^verbatim>\<open>reduce\<close>; the length of an array is below \<open>2 ^ 32\<close> and is a double as it
  stands.
\<close>

definition mean_of :: "jsnum list \<Rightarrow> jsnum" where
  "mean_of numericValues =
     num_div (foldl num_add (Fin 0) numericValues) (Fin (of_nat (length numericValues)))"

definition median_of :: "jsnum list \<Rightarrow> jsnum" where
  "median_of numericValues =
     (let sorted = sort_numbers numericValues;
          mid = length sorted div 2
      in if length sorted mod 2 = 0
         then num_div (num_add (sorted ! (mid - 1)) (sorted ! mid)) (Fin 2)
         else sorted ! mid)"

text \<open>
  The replacement value of a column, from its non-missing values (lines 176 to 213).
  Under the strategy "constant" it is \<^verbatim>\<open>options.constantValue || ""\<close>.
\<close>

definition replacement_value :: "host \<Rightarrow> options \<Rightarrow> jsval list \<Rightarrow> error + jsval" where
  "replacement_value H opts vals =
     (if missingValueStrategy opts = Constant then
        Inr (JStr (case constantValue opts of None \<Rightarrow> [] | Some s \<Rightarrow> s))
      else
        let numericValues = filter (\<lambda>v. \<not> isNaN v) (map parseFloat vals)
        in if length numericValues > 0 then
             (case missingValueStrategy opts of
                Mean \<Rightarrow> Inr (JNum (mean_of numericValues))
              | Median \<Rightarrow> Inr (JNum (median_of numericValues))
              | Mode \<Rightarrow>
                  (case most_common (count_values (map (num_to_string H) numericValues)) of
                     Inl e \<Rightarrow> Inl e | Inr k \<Rightarrow> Inr (JStr k))
              | Constant \<Rightarrow> Inr JUndefined)
           else
             (case most_common (count_values (map (to_string H) vals)) of
                Inl e \<Rightarrow> Inl e | Inr k \<Rightarrow> Inr (JStr k)))"

text \<open>The \<^verbatim>\<open>map\<close> of lines 216 to 222, with the counter \<^verbatim>\<open>stats.nullValuesFixed\<close>.\<close>

fun replace_missing :: "string \<Rightarrow> jsval \<Rightarrow> row list \<Rightarrow> nat \<Rightarrow> row list \<times> nat" where
  "replace_missing col replacementValue [] fixed = ([], fixed)"
| "replace_missing col replacementValue (r # rs) fixed =
     (if is_missing (row_get r col) then
        (let (rs', fixed') = replace_missing col replacementValue rs (fixed + 1)
         in (obj_set r col replacementValue # rs', fixed'))
      else
        (let (rs', fixed') = replace_missing col replacementValue rs fixed
         in (r # rs', fixed')))"

text \<open>The body of the \<^verbatim>\<open>forEach\<close> over the columns.\<close>

definition impute_column ::
  "host \<Rightarrow> options \<Rightarrow> row list \<times> nat \<Rightarrow> string \<Rightarrow> error + (row list \<times> nat)" where
  "impute_column H opts datafixed col =
     (let (data, fixed) = datafixed;
          vals = filter (\<lambda>v. \<not> is_missing v) (map (\<lambda>r. row_get r col) data);
          missingCount = length (filter (\<lambda>r. is_missing (row_get r col)) data)
      in if missingCount = 0 then Inr (data, fixed)
         else case replacement_value H opts vals of
                Inl e \<Rightarrow> Inl e
              | Inr replacementValue \<Rightarrow> Inr (replace_missing col replacementValue data fixed))"

text \<open>The stage, with its guard of line 159. The columns are those of the first row.\<close>

definition impute :: "host \<Rightarrow> options \<Rightarrow> row list \<Rightarrow> nat \<Rightarrow> error + (row list \<times> nat)" where
  "impute H opts data fixed =
     (if missingValueStrategy opts \<noteq> Constant \<or> constantValue opts \<noteq> None then
        (case data of
           [] \<Rightarrow> Inl TypeError
         | first # _ \<Rightarrow> fold_err (impute_column H opts) (obj_keys first) (data, fixed))
      else Inr (data, fixed))"

subsection \<open>Step 4: outliers (lines 226 to 266)\<close>

text \<open>The \<^verbatim>\<open>filter\<close> of lines 251 to 260, with the counter \<^verbatim>\<open>stats.outlierCount\<close>.\<close>

fun filter_outliers :: "string \<Rightarrow> jsnum \<Rightarrow> jsnum \<Rightarrow> row list \<Rightarrow> nat \<Rightarrow> row list \<times> nat" where
  "filter_outliers col lowerBound upperBound [] cnt = ([], cnt)"
| "filter_outliers col lowerBound upperBound (r # rs) cnt =
     (let val = parseFloat (row_get r col) in
      if isNaN val then
        (let (rs', cnt') = filter_outliers col lowerBound upperBound rs cnt in (r # rs', cnt'))
      else if num_lt val lowerBound \<or> num_gt val upperBound then
        filter_outliers col lowerBound upperBound rs (cnt + 1)
      else
        (let (rs', cnt') = filter_outliers col lowerBound upperBound rs cnt in (r # rs', cnt')))"

text \<open>
  \<^verbatim>\<open>Math.floor(sorted.length * 0.25)\<close> and \<^verbatim>\<open>Math.floor(sorted.length * 0.75)\<close>: the factors
  are doubles as they stand, and so are the products for the length of an array.
\<close>

definition q1Idx :: "nat \<Rightarrow> nat" where
  "q1Idx n = nat \<lfloor>(of_nat n :: rat) * (1 / 4)\<rfloor>"

definition q3Idx :: "nat \<Rightarrow> nat" where
  "q3Idx n = nat \<lfloor>(of_nat n :: rat) * (3 / 4)\<rfloor>"

text \<open>
  The bounds of a column: \<open>None\<close> when no value of the column parses as a number. The
  difference \<^verbatim>\<open>q3 - q1\<close>, the product \<^verbatim>\<open>1.5 * iqr\<close> and each bound are rounded in turn.
\<close>

definition outlier_bounds :: "row list \<Rightarrow> string \<Rightarrow> (jsnum \<times> jsnum) option" where
  "outlier_bounds data col =
     (let numericValues = filter (\<lambda>v. \<not> isNaN v) (map (\<lambda>r. parseFloat (row_get r col)) data)
      in if length numericValues = 0 then None
         else
           let sorted = sort_numbers numericValues;
               q1 = sorted ! q1Idx (length sorted);
               q3 = sorted ! q3Idx (length sorted);
               iqr = num_sub q3 q1;
               lowerBound = num_sub q1 (num_mul (Fin (3 / 2)) iqr);
               upperBound = num_add q3 (num_mul (Fin (3 / 2)) iqr)
           in Some (lowerBound, upperBound))"

text \<open>The body of the \<^verbatim>\<open>forEach\<close> over the columns.\<close>

definition outlier_column :: "row list \<times> nat \<Rightarrow> string \<Rightarrow> row list \<times> nat" where
  "outlier_column datacnt col =
     (let (data, cnt) = datacnt in
      case outlier_bounds data col of
        None \<Rightarrow> (data, cnt)
      | Some (lowerBound, upperBound) \<Rightarrow>
          let (filteredData, cnt') = filter_outliers col lowerBound upperBound data cnt
          in if length filteredData < length data then (filteredData, cnt') else (data, cnt'))"

definition outliers :: "options \<Rightarrow> row list \<Rightarrow> nat \<Rightarrow> error + (row list \<times> nat)" where
  "outliers opts data cnt =
     (if removeOutliers opts then
        (case data of
           [] \<Rightarrow> Inl TypeError
         | first # _ \<Rightarrow> Inr (foldl outlier_column (data, cnt) (obj_keys first)))
      else Inr (data, cnt))"

subsection \<open>Step 5: types (lines 268 to 298)\<close>

text \<open>
  \<^verbatim>\<open>new Date(value).toISOString().split('T')[0]\<close>; \<open>None\<close> when the date is invalid, where
  \<^verbatim>\<open>toISOString\<close> throws a \<^verbatim>\<open>RangeError\<close>. A number is a time value, clipped and truncated.
\<close>

definition to_iso_date :: "host \<Rightarrow> jsval \<Rightarrow> string option" where
  "to_iso_date H v =
     (case v of
        JStr s \<Rightarrow> map_option (isoDate H) (dateParse H s)
      | JNum n \<Rightarrow>
          (case n of
             Fin a \<Rightarrow> if \<bar>a\<bar> > 8640000000000000 then None
                      else Some (isoDate H (if a < 0 then \<lceil>a\<rceil> else \<lfloor>a\<rfloor>))
           | _ \<Rightarrow> None)
      | JNull \<Rightarrow> Some (isoDate H 0)
      | JUndefined \<Rightarrow> None)"

text \<open>The body of the inner \<^verbatim>\<open>forEach\<close>: one column of one row, writing into \<^verbatim>\<open>newRow\<close>.\<close>

definition coerce_cell :: "host \<Rightarrow> column_info list \<Rightarrow> row \<Rightarrow> row \<Rightarrow> string \<Rightarrow> row" where
  "coerce_cell H infos r newRow col =
     (case find (\<lambda>c. cleaned c = col) infos of
        None \<Rightarrow> newRow
      | Some columnInfo \<Rightarrow>
          let val = row_get r col in
          if is_missing val then newRow
          else (case type columnInfo of
                  TInteger \<Rightarrow> obj_set newRow col (JNum (parseInt H val))
                | TFloat \<Rightarrow> obj_set newRow col (JNum (parseFloat val))
                | TDate \<Rightarrow> (case to_iso_date H val of
                              Some d \<Rightarrow> obj_set newRow col (JStr d)
                            | None \<Rightarrow> newRow)
                | TString \<Rightarrow> newRow))"

definition coerce_row :: "host \<Rightarrow> column_info list \<Rightarrow> string list \<Rightarrow> row \<Rightarrow> row" where
  "coerce_row H infos columns r = foldl (coerce_cell H infos r) r columns"

definition coerce :: "host \<Rightarrow> options \<Rightarrow> column_info list \<Rightarrow> row list \<Rightarrow> error + row list" where
  "coerce H opts infos data =
     (if fixDataTypes opts then
        (case data of
           [] \<Rightarrow> Inl TypeError
         | first # _ \<Rightarrow> Inr (map (coerce_row H infos (obj_keys first)) data))
      else Inr data)"

subsection \<open>The orchestrator (lines 80 to 305)\<close>

definition cleanData :: "host \<Rightarrow> rawdata \<Rightarrow> options \<Rightarrow> error + (row list \<times> stats)" where
  "cleanData H rawData opts =
     (case rawData of
        NotArray \<Rightarrow> Inl InvalidDataFormat
      | Rows [] \<Rightarrow> Inl InvalidDataFormat
      | Rows (first # rest) \<Rightarrow>
          let st0 = \<lparr>totalRows = length (first # rest), totalColumns = length (obj_keys first),
                     duplicatesRemoved = 0, nullValuesFixed = 0, columnsRenamed = [],
                     dataTypeSummary = [], outlierCount = 0\<rparr>
          in case (if standardizeColumnNames opts then standardize H (first # rest) st0
                   else Inr (first # rest, st0)) of
               Inl e \<Rightarrow> Inl e
             | Inr (data1, st1) \<Rightarrow>
                 let (data2, removed) = dedupe H data1;
                     st2 = st1\<lparr>duplicatesRemoved := removed\<rparr>
                 in case impute H opts data2 (nullValuesFixed st2) of
                      Inl e \<Rightarrow> Inl e
                    | Inr (data3, fixed) \<Rightarrow>
                        let st3 = st2\<lparr>nullValuesFixed := fixed\<rparr>
                        in case outliers opts data3 (outlierCount st3) of
                             Inl e \<Rightarrow> Inl e
                           | Inr (data4, cnt) \<Rightarrow>
                               let st4 = st3\<lparr>outlierCount := cnt\<rparr>
                               in case coerce H opts (columnsRenamed st4) data4 of
                                    Inl e \<Rightarrow> Inl e
                                  | Inr data5 \<Rightarrow> Inr (data5, st4))"

subsection \<open>A host for the examples\<close>

text \<open>
  \<^verbatim>\<open>Number::toString\<close> of ECMAScript in radix 10; \<^verbatim>\<open>Date.parse\<close> on the date forms YYYY,
  YYYY-MM and YYYY-MM-DD, any other string being no date; the calendar date of a time value
  for the years 0 to 9999.
\<close>

definition digit_char :: "int \<Rightarrow> char" where
  "digit_char d = ''0123456789'' ! nat d"

function show_int :: "int \<Rightarrow> string" where
  "show_int n = (if n < 0 then CHR ''-'' # show_int (- n)
                 else if n < 10 then [digit_char n]
                 else show_int (n div 10) @ [digit_char (n mod 10)])"
  by pat_completeness auto
termination
  by (relation "measure (\<lambda>n. if n < 0 then nat (1 - 2 * n) else nat (2 * n))") auto

text \<open>The number of decimal digits of a positive integer.\<close>

function dec_length :: "int \<Rightarrow> int" where
  "dec_length n = (if n \<le> 0 then 0 else 1 + dec_length (n div 10))"
  by pat_completeness auto
termination
  by (relation "measure nat") auto

declare dec_length.simps [simp del]

text \<open>The integer \<open>n\<close> with \<open>10 ^ (n - 1) \<le> a < 10 ^ n\<close>, for positive \<open>a\<close>.\<close>

definition decimal_exponent :: "rat \<Rightarrow> int" where
  "decimal_exponent a =
     (let (p, q) = quotient_of a; n = dec_length p - dec_length q
      in if a < pow10 n then n else n + 1)"

text \<open>
  The digits of a positive double \<open>a\<close>: an integer \<open>s\<close> of \<open>k\<close> digits, for the least \<open>k\<close>, such
  that \<open>s * 10 ^ (n - k)\<close> rounds to \<open>a\<close>; of two such integers the one whose value is nearer
  to \<open>a\<close>, and the even one when they are equally near. Only the two integers next to
  \<open>a / 10 ^ (n - k)\<close> need to be tried, and 17 digits are always enough.
\<close>

definition digits_candidate :: "rat \<Rightarrow> int \<Rightarrow> int \<Rightarrow> int option" where
  "digits_candidate a n k =
     (let u = pow10 (n - k); lo = \<lfloor>a / u\<rfloor>; hi = lo + 1;
          ok_lo = (to_double (of_int lo * u) = Fin a);
          ok_hi = (to_double (of_int hi * u) = Fin a)
      in if ok_lo \<and> ok_hi then
           Some (if a - of_int lo * u < of_int hi * u - a then lo
                 else if of_int hi * u - a < a - of_int lo * u then hi
                 else if even lo then lo else hi)
         else if ok_lo then Some lo
         else if ok_hi then Some hi
         else None)"

fun shortest_digits :: "rat \<Rightarrow> int \<Rightarrow> int \<Rightarrow> nat \<Rightarrow> int \<times> int" where
  "shortest_digits a n k 0 = (\<lfloor>a / pow10 (n - k)\<rfloor>, k)"
| "shortest_digits a n k (Suc fuel) =
     (case digits_candidate a n k of
        Some s \<Rightarrow> (s, k)
      | None \<Rightarrow> shortest_digits a n (k + 1) fuel)"

text \<open>
  The rendering of the digits \<open>ds\<close> with the decimal point after the \<open>n\<close>-th digit: plain
  digits for \<open>-6 < n \<le> 21\<close>, and the form with an exponent otherwise.
\<close>

definition format_digits :: "string \<Rightarrow> int \<Rightarrow> string" where
  "format_digits ds n =
     (let k = int (length ds) in
      if k \<le> n \<and> n \<le> 21 then ds @ replicate (nat (n - k)) CHR ''0''
      else if 0 < n \<and> n \<le> 21 then take (nat n) ds @ CHR ''.'' # drop (nat n) ds
      else if - 6 < n \<and> n \<le> 0 then ''0.'' @ replicate (nat (- n)) CHR ''0'' @ ds
      else (if k = 1 then ds else hd ds # CHR ''.'' # tl ds)
           @ CHR ''e'' # (if n - 1 < 0 then CHR ''-'' else CHR ''+'') # show_int \<bar>n - 1\<bar>)"

text \<open>
  When the digits found are those of the next power of ten (one digit more than asked for),
  the point moves by one place; zeros at the end of the digits are not written.
\<close>

definition number_to_string :: "rat \<Rightarrow> string" where
  "number_to_string x =
     (if x = 0 then ''0''
      else
        let a = \<bar>x\<bar>;
            n = decimal_exponent a;
            (s, k) = shortest_digits a n 1 17;
            ds = show_int s;
            ds' = hd ds # rev (dropWhile (\<lambda>c. c = CHR ''0'') (rev (tl ds)))
        in (if x < 0 then ''-'' else []) @ format_digits ds' (n + int (length ds) - k))"

definition days_from_civil :: "int \<Rightarrow> int \<Rightarrow> int \<Rightarrow> int" where
  "days_from_civil y m d =
     (let y' = (if m \<le> 2 then y - 1 else y);
          era = y' div 400;
          yoe = y' - era * 400;
          doy = (153 * (if m > 2 then m - 3 else m + 9) + 2) div 5 + d - 1;
          doe = yoe * 365 + yoe div 4 - yoe div 100 + doy
      in era * 146097 + doe - 719468)"

definition civil_from_days :: "int \<Rightarrow> int \<times> int \<times> int" where
  "civil_from_days z =
     (let z' = z + 719468;
          era = z' div 146097;
          doe = z' - era * 146097;
          yoe = (doe - doe div 1460 + doe div 36524 - doe div 146096) div 365;
          doy = doe - (365 * yoe + yoe div 4 - yoe div 100);
          mp = (5 * doy + 2) div 153;
          d = doy - (153 * mp + 2) div 5 + 1;
          m = (if mp < 10 then mp + 3 else mp - 9)
      in (if m \<le> 2 then yoe + era * 400 + 1 else yoe + era * 400, m, d))"

definition pad_int :: "nat \<Rightarrow> int \<Rightarrow> string" where
  "pad_int w n = (let ds = show_int n in replicate (w - length ds) CHR ''0'' @ ds)"

definition iso_date_part :: "int \<Rightarrow> string" where
  "iso_date_part t =
     (let (y, m, d) = civil_from_days (t div 86400000)
      in pad_int 4 y @ ''-'' @ pad_int 2 m @ ''-'' @ pad_int 2 d)"

definition days_in_month :: "int \<Rightarrow> int \<Rightarrow> int" where
  "days_in_month y m =
     (if m = 2 then (if y mod 4 = 0 \<and> (y mod 100 \<noteq> 0 \<or> y mod 400 = 0) then 29 else 28)
      else if m = 4 \<or> m = 6 \<or> m = 9 \<or> m = 11 then 30 else 31)"

definition parse_iso_date_full :: "string \<Rightarrow> int option" where
  "parse_iso_date_full s =
     (if length s = 10 \<and> list_all is_digit (take 4 s) \<and> s ! 4 = CHR ''-''
         \<and> list_all is_digit (take 2 (drop 5 s)) \<and> s ! 7 = CHR ''-''
         \<and> list_all is_digit (drop 8 s)
      then
        (let y = digits_val 10 digit_val (take 4 s);
             m = digits_val 10 digit_val (take 2 (drop 5 s));
             d = digits_val 10 digit_val (drop 8 s)
         in if 1 \<le> m \<and> m \<le> 12 \<and> 1 \<le> d \<and> d \<le> days_in_month y m
            then Some (days_from_civil y m d * 86400000) else None)
      else None)"

definition parse_iso_date :: "string \<Rightarrow> int option" where
  "parse_iso_date s =
     (if length s = 4 \<or> length s = 7 then parse_iso_date_full (s @ drop (length s) ''0000-01-01'')
      else parse_iso_date_full s)"

definition js_host :: host where
  "js_host = \<lparr>numToString = number_to_string, dateParse = parse_iso_date, isoDate = iso_date_part\<rparr>"

subsection \<open>The run on a store of objects and arrays\<close>

text \<open>
  For the effect of a run on its argument, the same steps are given on a store: a row is
  an object at an address, a dataset is an array of addresses at an address, and every
  object literal, spread, \<^verbatim>\<open>map\<close> and \<^verbatim>\<open>filter\<close> of the source allocates. A property
  assignment \<^verbatim>\<open>ob[k] = v\<close> writes into the object at the address of \<^verbatim>\<open>ob\<close>. The temporary
  arrays of cell values and the objects of the statistics hold no row and are computed as
  values.
\<close>

datatype cell = Obj row | Arr "nat list"

record heap =
  cells :: "nat \<Rightarrow> cell option"
  fresh :: nat

definition alloc :: "heap \<Rightarrow> cell \<Rightarrow> nat \<times> heap" where
  "alloc h c = (fresh h, h\<lparr>cells := (cells h)(fresh h \<mapsto> c), fresh := Suc (fresh h)\<rparr>)"

definition get_row :: "heap \<Rightarrow> nat \<Rightarrow> row" where
  "get_row h a = (case cells h a of Some (Obj r) \<Rightarrow> r | _ \<Rightarrow> [])"

definition get_arr :: "heap \<Rightarrow> nat \<Rightarrow> nat list" where
  "get_arr h a = (case cells h a of Some (Arr refs) \<Rightarrow> refs | _ \<Rightarrow> [])"

text \<open>The rows of the array at an address.\<close>

definition deref :: "heap \<Rightarrow> nat \<Rightarrow> row list" where
  "deref h d = map (get_row h) (get_arr h d)"

definition write_prop :: "heap \<Rightarrow> nat \<Rightarrow> string \<Rightarrow> jsval \<Rightarrow> heap" where
  "write_prop h a k v = h\<lparr>cells := (cells h)(a \<mapsto> Obj (obj_set (get_row h a) k v))\<rparr>"

text \<open>\<^verbatim>\<open>refs.map(f)\<close> for a callback that allocates: the new elements and the store.\<close>

fun map_h :: "(heap \<Rightarrow> nat \<Rightarrow> nat \<times> heap) \<Rightarrow> heap \<Rightarrow> nat list \<Rightarrow> nat list \<times> heap" where
  "map_h f h [] = ([], h)"
| "map_h f h (r # rs) =
     (let (a, h1) = f h r; (as, h2) = map_h f h1 rs in (a # as, h2))"

text \<open>Lines 134 to 140: a new object per row, filled by assignments.\<close>

definition rename_row_h :: "string obj \<Rightarrow> heap \<Rightarrow> nat \<Rightarrow> nat \<times> heap" where
  "rename_row_h columnMapping h r =
     (let (newRow, h1) = alloc h (Obj [])
      in (newRow, foldl (\<lambda>h' (originalCol, cleanedCol).
                           write_prop h' newRow cleanedCol (row_get (get_row h' r) originalCol))
                    h1 columnMapping))"

definition standardize_h ::
  "host \<Rightarrow> heap \<Rightarrow> nat \<Rightarrow> stats \<Rightarrow> error + ((nat \<times> stats) \<times> heap)" where
  "standardize_h H h d st =
     (case get_arr h d of
        [] \<Rightarrow> Inl TypeError
      | first # _ \<Rightarrow>
          (case fold_err (standardize_column H (deref h d)) (obj_keys (get_row h first)) ([], st) of
             Inl e \<Rightarrow> Inl e
           | Inr (columnMapping, st') \<Rightarrow>
               let (newRefs, h1) = map_h (rename_row_h columnMapping) h (get_arr h d);
                   (d', h2) = alloc h1 (Arr newRefs)
               in Inr ((d', st'), h2)))"

text \<open>Lines 144 to 156: the filter keeps references to the rows it is given.\<close>

fun dedupe_filter_h :: "host \<Rightarrow> heap \<Rightarrow> string set \<Rightarrow> nat list \<Rightarrow> nat list" where
  "dedupe_filter_h H h uniqueRows [] = []"
| "dedupe_filter_h H h uniqueRows (r # rs) =
     (let rowStr = JSON_stringify H (get_row h r)
      in if rowStr \<in> uniqueRows then dedupe_filter_h H h uniqueRows rs
         else r # dedupe_filter_h H h (insert rowStr uniqueRows) rs)"

definition dedupe_h :: "host \<Rightarrow> heap \<Rightarrow> nat \<Rightarrow> (nat \<times> nat) \<times> heap" where
  "dedupe_h H h d =
     (let dedupedRefs = dedupe_filter_h H h {} (get_arr h d);
          (d', h1) = alloc h (Arr dedupedRefs)
      in ((d', length (get_arr h d) - length dedupedRefs), h1))"

text \<open>Lines 216 to 222: \<^verbatim>\<open>{ ...row, [col]: replacementValue }\<close> is a new object; other rows are kept.\<close>

fun replace_missing_h ::
  "string \<Rightarrow> jsval \<Rightarrow> heap \<Rightarrow> nat list \<Rightarrow> nat \<Rightarrow> (nat list \<times> nat) \<times> heap" where
  "replace_missing_h col replacementValue h [] fixed = (([], fixed), h)"
| "replace_missing_h col replacementValue h (r # rs) fixed =
     (if is_missing (row_get (get_row h r) col) then
        (let (newRow, h1) = alloc h (Obj (get_row h r));
             h2 = write_prop h1 newRow col replacementValue;
             ((rs', fixed'), h3) = replace_missing_h col replacementValue h2 rs (fixed + 1)
         in ((newRow # rs', fixed'), h3))
      else
        (let ((rs', fixed'), h3) = replace_missing_h col replacementValue h rs fixed
         in ((r # rs', fixed'), h3)))"

definition impute_column_h ::
  "host \<Rightarrow> options \<Rightarrow> (nat \<times> nat) \<times> heap \<Rightarrow> string \<Rightarrow> error + ((nat \<times> nat) \<times> heap)" where
  "impute_column_h H opts s col =
     (let ((d, fixed), h) = s;
          vals = filter (\<lambda>v. \<not> is_missing v) (map (\<lambda>r. row_get r col) (deref h d));
          missingCount = length (filter (\<lambda>r. is_missing (row_get r col)) (deref h d))
      in if missingCount = 0 then Inr ((d, fixed), h)
         else case replacement_value H opts vals of
                Inl e \<Rightarrow> Inl e
              | Inr replacementValue \<Rightarrow>
                  let ((newRefs, fixed'), h1) = replace_missing_h col replacementValue h (get_arr h d) fixed;
                      (d', h2) = alloc h1 (Arr newRefs)
                  in Inr ((d', fixed'), h2))"

definition impute_h ::
  "host \<Rightarrow> options \<Rightarrow> heap \<Rightarrow> nat \<Rightarrow> nat \<Rightarrow> error + ((nat \<times> nat) \<times> heap)" where
  "impute_h H opts h d fixed =
     (if missingValueStrategy opts \<noteq> Constant \<or> constantValue opts \<noteq> None then
        (case get_arr h d of
           [] \<Rightarrow> Inl TypeError
         | first # _ \<Rightarrow>
             fold_err (impute_column_h H opts) (obj_keys (get_row h first)) ((d, fixed), h))
      else Inr ((d, fixed), h))"

text \<open>Lines 251 to 264: the filtered array is new; it replaces the data when it is shorter.\<close>

fun filter_outliers_h ::
  "string \<Rightarrow> jsnum \<Rightarrow> jsnum \<Rightarrow> heap \<Rightarrow> nat list \<Rightarrow> nat \<Rightarrow> nat list \<times> nat" where
  "filter_outliers_h col lowerBound upperBound h [] cnt = ([], cnt)"
| "filter_outliers_h col lowerBound upperBound h (r # rs) cnt =
     (let val = parseFloat (row_get (get_row h r) col) in
      if isNaN val then
        (let (rs', cnt') = filter_outliers_h col lowerBound upperBound h rs cnt in (r # rs', cnt'))
      else if num_lt val lowerBound \<or> num_gt val upperBound then
        filter_outliers_h col lowerBound upperBound h rs (cnt + 1)
      else
        (let (rs', cnt') = filter_outliers_h col lowerBound upperBound h rs cnt in (r # rs', cnt')))"

definition outlier_column_h :: "(nat \<times> nat) \<times> heap \<Rightarrow> string \<Rightarrow> (nat \<times> nat) \<times> heap" where
  "outlier_column_h s col =
     (let ((d, cnt), h) = s in
      case outlier_bounds (deref h d) col of
        None \<Rightarrow> ((d, cnt), h)
      | Some (lowerBound, upperBound) \<Rightarrow>
          let (filteredRefs, cnt') = filter_outliers_h col lowerBound upperBound h (get_arr h d) cnt;
              (filteredData, h1) = alloc h (Arr filteredRefs)
          in if length filteredRefs < length (get_arr h d) then ((filteredData, cnt'), h1)
             else ((d, cnt'), h1))"

definition outliers_h :: "options \<Rightarrow> heap \<Rightarrow> nat \<Rightarrow> nat \<Rightarrow> error + ((nat \<times> nat) \<times> heap)" where
  "outliers_h opts h d cnt =
     (if removeOutliers opts then
        (case get_arr h d of
           [] \<Rightarrow> Inl TypeError
         | first # _ \<Rightarrow> Inr (foldl outlier_column_h ((d, cnt), h) (obj_keys (get_row h first))))
      else Inr ((d, cnt), h))"

text \<open>Lines 272 to 297: \<^verbatim>\<open>newRow\<close> is a copy of the row, and the assignments write into it.\<close>

definition coerce_cell_h :: "host \<Rightarrow> column_info list \<Rightarrow> nat \<Rightarrow> nat \<Rightarrow> heap \<Rightarrow> string \<Rightarrow> heap" where
  "coerce_cell_h H infos r newRow h col =
     (case find (\<lambda>c. cleaned c = col) infos of
        None \<Rightarrow> h
      | Some columnInfo \<Rightarrow>
          let val = row_get (get_row h r) col in
          if is_missing val then h
          else (case type columnInfo of
                  TInteger \<Rightarrow> write_prop h newRow col (JNum (parseInt H val))
                | TFloat \<Rightarrow> write_prop h newRow col (JNum (parseFloat val))
                | TDate \<Rightarrow> (case to_iso_date H val of
                              Some d \<Rightarrow> write_prop h newRow col (JStr d)
                            | None \<Rightarrow> h)
                | TString \<Rightarrow> h))"

definition coerce_row_h :: "host \<Rightarrow> column_info list \<Rightarrow> string list \<Rightarrow> heap \<Rightarrow> nat \<Rightarrow> nat \<times> heap" where
  "coerce_row_h H infos columns h r =
     (let (newRow, h1) = alloc h (Obj (get_row h r))
      in (newRow, foldl (coerce_cell_h H infos r newRow) h1 columns))"

definition coerce_h ::
  "host \<Rightarrow> options \<Rightarrow> column_info list \<Rightarrow> heap \<Rightarrow> nat \<Rightarrow> error + (nat \<times> heap)" where
  "coerce_h H opts infos h d =
     (if fixDataTypes opts then
        (case get_arr h d of
           [] \<Rightarrow> Inl TypeError
         | first # _ \<Rightarrow>
             let (newRefs, h1) = map_h (coerce_row_h H infos (obj_keys (get_row h first))) h (get_arr h d);
                 (d', h2) = alloc h1 (Arr newRefs)
             in Inr (d', h2))
      else Inr (d, h))"

text \<open>
  The orchestrator on the store: \<^verbatim>\<open>rawData\<close> is an address, and the result is the address of
  the cleaned array, the statistics and the store after the run.
\<close>

definition cleanData_h ::
  "host \<Rightarrow> heap \<Rightarrow> nat \<Rightarrow> options \<Rightarrow> error + ((nat \<times> stats) \<times> heap)" where
  "cleanData_h H h rawData opts =
     (case cells h rawData of
        None \<Rightarrow> Inl InvalidDataFormat
      | Some (Obj _) \<Rightarrow> Inl InvalidDataFormat
      | Some (Arr []) \<Rightarrow> Inl InvalidDataFormat
      | Some (Arr (first # rest)) \<Rightarrow>
          let st0 = \<lparr>totalRows = length (first # rest),
                     totalColumns = length (obj_keys (get_row h first)),
                     duplicatesRemoved = 0, nullValuesFixed = 0, columnsRenamed = [],
                     dataTypeSummary = [], outlierCount = 0\<rparr>;
              (data0, h0) = alloc h (Arr (first # rest))
          in case (if standardizeColumnNames opts then standardize_h H h0 data0 st0
                   else Inr ((data0, st0), h0)) of
               Inl e \<Rightarrow> Inl e
             | Inr ((data1, st1), h1) \<Rightarrow>
                 let ((data2, removed), h2) = dedupe_h H h1 data1;
                     st2 = st1\<lparr>duplicatesRemoved := removed\<rparr>
                 in case impute_h H opts h2 data2 (nullValuesFixed st2) of
                      Inl e \<Rightarrow> Inl e
                    | Inr ((data3, fixed), h3) \<Rightarrow>
                        let st3 = st2\<lparr>nullValuesFixed := fixed\<rparr>
                        in case outliers_h opts h3 data3 (outlierCount st3) of
                             Inl e \<Rightarrow> Inl e
                           | Inr ((data4, cnt), h4) \<Rightarrow>
                               let st4 = st3\<lparr>outlierCount := cnt\<rparr>
                               in case coerce_h H opts (columnsRenamed st4) h4 data4 of
                                    Inl e \<Rightarrow> Inl e
                                  | Inr (data5, h5) \<Rightarrow> Inr ((data5, st4), h5))"

text \<open>
  A later store extends an earlier one when every address allocated in the earlier store
  holds what it held.
\<close>

definition extends :: "heap \<Rightarrow> heap \<Rightarrow> bool" where
  "extends h h' = (fresh h \<le> fresh h' \<and> (\<forall>a. a < fresh h \<longrightarrow> cells h' a = cells h a))"

text \<open>An array of the store whose address and elements are allocated.\<close>

definition valid_arr :: "heap \<Rightarrow> nat \<Rightarrow> bool" where
  "valid_arr h d = (d < fresh h \<and> (\<forall>r\<in>set (get_arr h d). r < fresh h))"

text \<open>
  The correspondence of a state of the run on the store, in a loop over the columns, with
  the state of the run on values: the array holds the rows, and the store extends the
  store the loop started from.
\<close>

definition related :: "heap \<Rightarrow> (nat \<times> nat) \<times> heap \<Rightarrow> row list \<times> nat \<Rightarrow> bool" where
  "related h0 s t =
     (case s of ((d, x), h) \<Rightarrow> valid_arr h d \<and> t = (deref h d, x) \<and> extends h0 h)"

text \<open>The argument of the run as a value, and a store that holds scenario A at address 3.\<close>

definition raw_of :: "heap \<Rightarrow> nat \<Rightarrow> rawdata" where
  "raw_of h rawData = (case cells h rawData of Some (Arr refs) \<Rightarrow> Rows (map (get_row h) refs)
                       | _ \<Rightarrow> NotArray)"

definition scenario_A_heap :: heap where
  "scenario_A_heap =
     \<lparr>cells = [0 \<mapsto> Obj [(''A '', JStr ''1'')], 1 \<mapsto> Obj [(''A '', JStr ''1'')],
               2 \<mapsto> Obj [(''A '', JStr [])], 3 \<mapsto> Arr [0, 1, 2]],
      fresh = 4\<rparr>"

subsection \<open>Predicates and examples of the specification\<close>

text \<open>A row is an outlier of a column when its value parses and lies outside the bounds.\<close>

definition is_outlier :: "string \<Rightarrow> jsnum \<Rightarrow> jsnum \<Rightarrow> row \<Rightarrow> bool" where
  "is_outlier col lowerBound upperBound r =
     (let val = parseFloat (row_get r col)
      in \<not> isNaN val \<and> (num_lt val lowerBound \<or> num_gt val upperBound))"

text \<open>The values of a column that parse as numbers.\<close>

definition numeric_values :: "row list \<Rightarrow> string \<Rightarrow> jsnum list" where
  "numeric_values data col = filter (\<lambda>v. \<not> isNaN v) (map (\<lambda>r. parseFloat (row_get r col)) data)"

text \<open>The rows of a result, for statements that leave the statistics aside.\<close>

definition cleaned_rows :: "error + (row list \<times> stats) \<Rightarrow> error + row list" where
  "cleaned_rows res = map_sum id fst res"

text \<open>
  The invariant of a dataset in section 3 of the specification: every row has the columns
  of the first row.
\<close>

definition uniform_rows :: "row list \<Rightarrow> bool" where
  "uniform_rows rows =
     (case rows of [] \<Rightarrow> True | first # _ \<Rightarrow> list_all (\<lambda>r. obj_keys r = obj_keys first) rows)"

text \<open>A cell that holds a number.\<close>

definition number_cell :: "jsval \<Rightarrow> bool" where
  "number_cell v = (case v of JNum n \<Rightarrow> True | _ \<Rightarrow> False)"

text \<open>
  The missing cells of a dataset in given columns, as positions (row index, column), and
  the replacement of a missing cell of one row.
\<close>

definition missing_cells :: "row list \<Rightarrow> string list \<Rightarrow> (nat \<times> string) set" where
  "missing_cells data cols =
     {(i, col). i < length data \<and> col \<in> set cols \<and> is_missing (row_get (data ! i) col)}"

definition fill_missing :: "string \<Rightarrow> jsval \<Rightarrow> row \<Rightarrow> row" where
  "fill_missing col v r = (if is_missing (row_get r col) then obj_set r col v else r)"

text \<open>
  The value of a cell after the coercion of its row: what lines 276 to 293 write, or the
  value the row had when they write nothing.
\<close>

definition coerced_value :: "host \<Rightarrow> column_info list \<Rightarrow> row \<Rightarrow> string \<Rightarrow> jsval" where
  "coerced_value H infos r col =
     (case find (\<lambda>c. cleaned c = col) infos of
        None \<Rightarrow> row_get r col
      | Some columnInfo \<Rightarrow>
          let val = row_get r col in
          if is_missing val then val
          else (case type columnInfo of
                  TInteger \<Rightarrow> JNum (parseInt H val)
                | TFloat \<Rightarrow> JNum (parseFloat val)
                | TDate \<Rightarrow> (case to_iso_date H val of Some d \<Rightarrow> JStr d | None \<Rightarrow> val)
                | TString \<Rightarrow> val))"

text \<open>The first step and the initial statistics of a run, named for the proofs.\<close>

definition stage1 :: "host \<Rightarrow> options \<Rightarrow> row list \<Rightarrow> stats \<Rightarrow> error + (row list \<times> stats)" where
  "stage1 H opts rows st0 =
     (if standardizeColumnNames opts then standardize H rows st0 else Inr (rows, st0))"

definition initial_stats :: "row list \<Rightarrow> stats" where
  "initial_stats rows =
     \<lparr>totalRows = length rows, totalColumns = length (obj_keys (hd rows)),
      duplicatesRemoved = 0, nullValuesFixed = 0, columnsRenamed = [],
      dataTypeSummary = [], outlierCount = 0\<rparr>"

text \<open>The defaults of \<^verbatim>\<open>processingOptionsSchema\<close>, with a strategy.\<close>

definition default_options :: "strategy \<Rightarrow> options" where
  "default_options strat =
     \<lparr>removeOutliers = False, fixDataTypes = True, standardizeColumnNames = True,
      missingValueStrategy = strat, constantValue = None\<rparr>"

text \<open>Scenario A of section 8, with either value of \<^verbatim>\<open>fixDataTypes\<close>.\<close>

definition scenario_A :: rawdata where
  "scenario_A = Rows [[(''A '', JStr ''1'')], [(''A '', JStr ''1'')], [(''A '', JStr [])]]"

definition scenario_A_options :: "bool \<Rightarrow> options" where
  "scenario_A_options fix =
     \<lparr>removeOutliers = False, fixDataTypes = fix, standardizeColumnNames = True,
      missingValueStrategy = Constant, constantValue = Some ''0''\<rparr>"

text \<open>Scenario B of section 8: one column, as numbers and as the strings of a CSV file.\<close>

definition scenario_B :: "row list" where
  "scenario_B = map (\<lambda>n. [(''value'', JNum (Fin n))]) [1, 2, 3, 4, 100]"

definition scenario_B_csv :: "row list" where
  "scenario_B_csv = map (\<lambda>s. [(''value'', JStr s)]) [''1'', ''2'', ''3'', ''4'', ''100'']"

text \<open>
  A column of decimal fractions, of which only 0.5 is a double as it stands: here the
  rounding of the values and of the bounds decides which rows are removed.
\<close>

definition decimal_column :: "row list" where
  "decimal_column = map (\<lambda>s. [(''value'', JStr s)]) [''0.1'', ''0.4'', ''0.5'', ''0.6'']"

definition scenario_B_options :: "bool \<Rightarrow> options" where
  "scenario_B_options std =
     \<lparr>removeOutliers = True, fixDataTypes = False, standardizeColumnNames = std,
      missingValueStrategy = Mean, constantValue = None\<rparr>"

section \<open>Properties\<close>

subsection \<open>Doubles\<close>

text \<open>
  The rounding on the decimal fractions 0.1 and 0.2, whose sum is 0.30000000000000004, and on
  an integer above \<open>2 ^ 53\<close>; the rendering of some doubles.
\<close>

lemma to_double_examples:
  "to_double (1 / 10) = Fin (3602879701896397 / 36028797018963968)
   \<and> to_double (2 / 10) = Fin (3602879701896397 / 18014398509481984)
   \<and> num_add (to_double (1 / 10)) (to_double (2 / 10)) = Fin (1351079888211149 / 4503599627370496)
   \<and> to_double 9007199254740993 = Fin 9007199254740992
   \<and> parseFloat_str ''0.1'' = to_double (1 / 10)"
  by code_simp

lemma number_to_string_examples:
  "number_to_string (3602879701896397 / 36028797018963968) = ''0.1''
   \<and> number_to_string (1351079888211149 / 4503599627370496) = ''0.30000000000000004''
   \<and> number_to_string 1000000000000000000000 = ''1e+21''
   \<and> number_to_string (- (5 / 2)) = ''-2.5''"
  by code_simp

subsection \<open>Deduplication\<close>

lemma dedupe_filter_fresh:
  "r \<in> set (dedupe_filter H S rs) \<Longrightarrow> JSON_stringify H r \<notin> S"
  by (induction rs arbitrary: S) (auto simp: Let_def split: if_splits)

lemma dedupe_filter_distinct:
  "distinct (map (JSON_stringify H) (dedupe_filter H S rs))"
  by (induction rs arbitrary: S) (auto simp: Let_def dest: dedupe_filter_fresh)

lemma dedupe_filter_fixed:
  "distinct (map (JSON_stringify H) rs) \<Longrightarrow> JSON_stringify H ` set rs \<inter> S = {}
   \<Longrightarrow> dedupe_filter H S rs = rs"
  by (induction rs arbitrary: S) (auto simp: Let_def)

lemma dedupe_filter_idem:
  "dedupe_filter H {} (dedupe_filter H {} rs) = dedupe_filter H {} rs"
  by (rule dedupe_filter_fixed) (simp_all add: dedupe_filter_distinct)

lemma dedupe_filter_snoc:
  "dedupe_filter H S (rs @ [r]) =
     dedupe_filter H S rs
     @ (if JSON_stringify H r \<in> S \<union> JSON_stringify H ` set rs then [] else [r])"
  by (induction rs arbitrary: S) (auto simp: Let_def)

text \<open>
  Claim C8. The deduplication step is idempotent: on its own output it returns that output
  again, and the number of duplicates it reports the second time is zero. The step keeps
  the rows in their order, and keeps a row exactly when no earlier row has its
  serialisation.
\<close>

theorem dedupe_idempotent:
  "dedupe H (fst (dedupe H data)) = (fst (dedupe H data), 0)
   \<and> fst (dedupe H []) = []
   \<and> fst (dedupe H (data @ [r])) =
       fst (dedupe H data)
       @ (if JSON_stringify H r \<in> JSON_stringify H ` set data then [] else [r])"
  by (simp add: dedupe_def Let_def dedupe_filter_idem dedupe_filter_snoc)

theorem dedupe_idempotent_witness:
  "dedupe js_host [[(''a'', JStr ''1'')], [(''a'', JStr [])]]
     = ([[(''a'', JStr ''1'')], [(''a'', JStr [])]], 0)"
proof -
  have e: "fst (dedupe js_host [[(''a'', JStr ''1'')], [(''a'', JStr ''1'')], [(''a'', JStr [])]])
             = [[(''a'', JStr ''1'')], [(''a'', JStr [])]]"
    by code_simp
  from dedupe_idempotent [of js_host "[[(''a'', JStr ''1'')], [(''a'', JStr ''1'')], [(''a'', JStr [])]]",
      THEN conjunct1]
  show ?thesis unfolding e .
qed

subsection \<open>Objects\<close>

lemma map_of_obj_replace:
  "map_of (obj_replace k v ob) = (if k \<in> dom (map_of ob) then (map_of ob)(k \<mapsto> v) else map_of ob)"
  by (induction ob) (auto simp: fun_eq_iff)

lemma map_of_obj_insert_index:
  "map_of ob k = None \<Longrightarrow> map_of (obj_insert_index n k v ob) = (map_of ob)(k \<mapsto> v)"
  by (induction ob) (auto simp: fun_eq_iff split: option.splits if_splits)

lemma map_of_obj_set: "map_of (obj_set ob k v) = (map_of ob)(k \<mapsto> v)"
proof (cases "map_of ob k")
  case None
  then show ?thesis
    by (cases "array_index k")
      (auto simp: obj_set_def map_of_obj_insert_index fun_eq_iff map_add_def split: option.splits)
next
  case (Some a)
  then have "k \<in> dom (map_of ob)" by blast
  with Some show ?thesis
    by (simp add: obj_set_def map_of_obj_replace)
qed

lemma row_get_obj_set:
  "row_get (obj_set r k v) k' = (if k' = k then v else row_get r k')"
  by (simp add: row_get_def map_of_obj_set)

subsection \<open>Loops that may throw\<close>

lemma fold_err_invariant:
  assumes "fold_err f xs s = Inr s'" and "P s"
    and "\<And>s x s'. P s \<Longrightarrow> f s x = Inr s' \<Longrightarrow> P s'"
  shows "P s'"
  using assms(1,2)
proof (induction xs arbitrary: s)
  case Nil
  then show ?case by simp
next
  case (Cons x xs)
  then obtain s1 where s1: "f s x = Inr s1" and rest: "fold_err f xs s1 = Inr s'"
    by (auto split: sum.splits)
  from assms(3) [OF Cons.prems(2) s1] have "P s1" .
  with rest show ?case by (rule Cons.IH)
qed

lemma fold_err_error:
  assumes "\<And>s x e. f s x = Inl e \<Longrightarrow> Q e"
    and "fold_err f xs s = Inl e"
  shows "Q e"
  using assms(2)
proof (induction xs arbitrary: s)
  case Nil
  then show ?case by simp
next
  case (Cons a xs)
  show ?case
  proof (cases "f s a")
    case (Inl e')
    with Cons.prems have "e' = e" by simp
    with Inl assms(1) [of s a e] show ?thesis by simp
  next
    case (Inr s1)
    with Cons.prems have "fold_err f xs s1 = Inl e" by simp
    then show ?thesis by (rule Cons.IH)
  qed
qed

lemma fold_err_throws:
  assumes "x \<in> set xs" and "P s"
    and "\<And>s. P s \<Longrightarrow> f s x = Inl e"
    and "\<And>s y e'. f s y = Inl e' \<Longrightarrow> e' = e"
    and "\<And>s y s'. P s \<Longrightarrow> f s y = Inr s' \<Longrightarrow> P s'"
  shows "fold_err f xs s = Inl e"
  using assms(1,2)
proof (induction xs arbitrary: s)
  case Nil
  then show ?case by simp
next
  case (Cons y ys)
  show ?case
  proof (cases "f s y")
    case (Inl e')
    with assms(4) [of s y e'] show ?thesis by simp
  next
    case (Inr s1)
    with Cons.prems(2) assms(3) [of s] have "y \<noteq> x" by auto
    with Cons.prems(1) have x: "x \<in> set ys" by simp
    have P1: "P s1" using assms(5) [of s y s1] Cons.prems(2) Inr by simp
    have "fold_err f ys s1 = Inl e"
      by (rule Cons.IH [OF x P1])
    with Inr show ?thesis by simp
  qed
qed

subsection \<open>Scenario A\<close>

text \<open>
  Claim C3, as the specification states it, fails: the name \<^verbatim>\<open>"A "\<close> becomes \<^verbatim>\<open>"a_"\<close>, because
  the white space is replaced by an underscore before the characters that are no word
  characters are removed, and an underscore is a word character. The cleaned rows are not
  the rows with the key \<^verbatim>\<open>"a"\<close>, whether the types are fixed or not.
\<close>

theorem scenario_A_counterexample:
  "cleaned_rows (cleanData js_host scenario_A (scenario_A_options False))
     \<noteq> Inr [[(''a'', JStr ''1'')], [(''a'', JStr ''0'')]]
   \<and> cleaned_rows (cleanData js_host scenario_A (scenario_A_options True))
     \<noteq> Inr [[(''a'', JStr ''1'')], [(''a'', JStr ''0'')]]"
  by code_simp

text \<open>
  Claim C3, amended. On the rows of scenario A, with \<^verbatim>\<open>standardizeColumnNames\<close>, the strategy
  "constant" and the constant \<^verbatim>\<open>"0"\<close>, the column is renamed to \<^verbatim>\<open>"a_"\<close>, one duplicate is
  removed, one missing cell is replaced by \<^verbatim>\<open>"0"\<close>, and the cleaned rows are
  \<^verbatim>\<open>[{"a_":"1"},{"a_":"0"}]\<close> when \<^verbatim>\<open>fixDataTypes\<close> is off; when it is on (the default of the
  options schema) the two cells are the numbers 1 and 0. This holds for every host.
\<close>

theorem scenario_A_result:
  "cleanData H scenario_A (scenario_A_options False) =
     Inr ([[(''a_'', JStr ''1'')], [(''a_'', JStr ''0'')]],
          \<lparr>totalRows = 3, totalColumns = 1, duplicatesRemoved = 1, nullValuesFixed = 1,
           columnsRenamed = [\<lparr>original = ''A '', cleaned = ''a_'', type = TInteger\<rparr>],
           dataTypeSummary = [(TInteger, 1)], outlierCount = 0\<rparr>)
   \<and> cleanData H scenario_A (scenario_A_options True) =
     Inr ([[(''a_'', JNum (Fin 1))], [(''a_'', JNum (Fin 0))]],
          \<lparr>totalRows = 3, totalColumns = 1, duplicatesRemoved = 1, nullValuesFixed = 1,
           columnsRenamed = [\<lparr>original = ''A '', cleaned = ''a_'', type = TInteger\<rparr>],
           dataTypeSummary = [(TInteger, 1)], outlierCount = 0\<rparr>)
   \<and> clean_name ''A '' = ''a_''"
  by code_simp

subsection \<open>Outliers\<close>

lemma q1Idx_div: "q1Idx n = n div 4"
proof -
  have "(of_nat n :: rat) * (1 / 4) = of_nat n / of_nat 4" by simp
  then show ?thesis unfolding q1Idx_def by (simp only: floor_divide_of_nat_eq nat_int)
qed

lemma q3Idx_div: "q3Idx n = 3 * n div 4"
proof -
  have "(of_nat n :: rat) * (3 / 4) = of_nat (3 * n) / of_nat 4" by simp
  then show ?thesis unfolding q3Idx_def by (simp only: floor_divide_of_nat_eq nat_int)
qed

lemma filter_outliers_eq:
  "filter_outliers col lo hi rs cnt =
     (filter (\<lambda>r. \<not> is_outlier col lo hi r) rs, cnt + length (filter (is_outlier col lo hi) rs))"
  by (induction rs arbitrary: cnt) (auto simp: Let_def is_outlier_def)

lemma filter_length_eq: "length (filter P xs) = length xs \<Longrightarrow> filter P xs = xs"
  by (metis filter_True length_filter_less linorder_neq_iff)

lemma outlier_column_eq:
  "outlier_column (data, cnt) col =
     (case outlier_bounds data col of
        None \<Rightarrow> (data, cnt)
      | Some (lo, hi) \<Rightarrow> (filter (\<lambda>r. \<not> is_outlier col lo hi r) data,
                          cnt + length (filter (is_outlier col lo hi) data)))"
proof (cases "outlier_bounds data col")
  case None
  then show ?thesis by (simp add: outlier_column_def)
next
  case (Some b)
  obtain lo hi where b: "b = (lo, hi)" by (cases b)
  have "data = filter (\<lambda>r. \<not> is_outlier col lo hi r) data"
    if "\<not> length (filter (\<lambda>r. \<not> is_outlier col lo hi r) data) < length data"
  proof -
    from that length_filter_le [of "\<lambda>r. \<not> is_outlier col lo hi r" data]
    have "length (filter (\<lambda>r. \<not> is_outlier col lo hi r) data) = length data"
      by simp
    then show ?thesis by (simp add: filter_length_eq)
  qed
  with Some b show ?thesis
    by (simp add: outlier_column_def filter_outliers_eq)
qed

lemma outlier_bounds_eq:
  "outlier_bounds data col =
     (let s = sort_numbers (numeric_values data col);
          q1 = s ! (length s div 4);
          q3 = s ! (3 * length s div 4)
      in if numeric_values data col = [] then None
         else Some (num_sub q1 (num_mul (Fin (3 / 2)) (num_sub q3 q1)),
                    num_add q3 (num_mul (Fin (3 / 2)) (num_sub q3 q1))))"
  by (simp add: outlier_bounds_def numeric_values_def Let_def q1Idx_div q3Idx_div)

lemma sort_numbers_sorted:
  "sorted (map num_key (sort_numbers xs)) \<and> mset (sort_numbers xs) = mset xs"
  by (simp add: sort_numbers_def)

lemma scenario_B_values:
  "outlier_bounds scenario_B ''value'' = Some (Fin (- 1), Fin 7)
   \<and> sort_numbers (numeric_values scenario_B ''value'') ! q1Idx 5 = Fin 2
   \<and> sort_numbers (numeric_values scenario_B ''value'') ! q3Idx 5 = Fin 4
   \<and> num_sub (Fin 4) (Fin 2) = Fin 2
   \<and> outlier_column (scenario_B, 0) ''value'' = (butlast scenario_B, 1)
   \<and> last scenario_B = [(''value'', JNum (Fin 100))]"
  by code_simp

lemma scenario_B_cleanData:
  "cleanData js_host (Rows scenario_B) (scenario_B_options False) =
     Inr (butlast scenario_B,
          \<lparr>totalRows = 5, totalColumns = 1, duplicatesRemoved = 0, nullValuesFixed = 0,
           columnsRenamed = [], dataTypeSummary = [], outlierCount = 1\<rparr>)
   \<and> cleanData js_host (Rows scenario_B_csv) (scenario_B_options True) =
     Inr (butlast scenario_B_csv,
          \<lparr>totalRows = 5, totalColumns = 1, duplicatesRemoved = 0, nullValuesFixed = 0,
           columnsRenamed = [\<lparr>original = ''value'', cleaned = ''value'', type = TInteger\<rparr>],
           dataTypeSummary = [(TInteger, 1)], outlierCount = 1\<rparr>)"
  by code_simp

lemma decimal_column_values:
  "map (\<lambda>r. parseFloat (row_get r ''value'')) decimal_column =
     [Fin (3602879701896397 / 36028797018963968), Fin (3602879701896397 / 9007199254740992),
      Fin (1 / 2), Fin (5404319552844595 / 9007199254740992)]
   \<and> outlier_bounds decimal_column ''value'' =
     Some (Fin (225179981368525 / 2251799813685248), Fin (2026619832316723 / 2251799813685248))
   \<and> outlier_column (decimal_column, 0) ''value'' = (tl decimal_column, 1)
   \<and> hd decimal_column = [(''value'', JStr ''0.1'')]
   \<and> cleanData js_host (Rows decimal_column) (scenario_B_options True) =
     Inr (tl decimal_column,
          \<lparr>totalRows = 4, totalColumns = 1, duplicatesRemoved = 0, nullValuesFixed = 0,
           columnsRenamed = [\<lparr>original = ''value'', cleaned = ''value'', type = TFloat\<rparr>],
           dataTypeSummary = [(TFloat, 1)], outlierCount = 1\<rparr>)"
  by code_simp

text \<open>
  Claim C5. For one column, the outlier filter sorts the values that parse as numbers,
  reads Q1 at index \<open>n div 4\<close> (the floor of \<open>n * 0.25\<close>) and Q3 at index \<open>3 * n div 4\<close> (the
  floor of \<open>n * 0.75\<close>), takes the bounds \<open>Q1 - 1.5 * IQR\<close> and \<open>Q3 + 1.5 * IQR\<close>, keeps exactly
  the rows that are no outlier for these bounds, and adds the number of removed rows to
  \<^verbatim>\<open>outlierCount\<close>. On the column 1, 2, 3, 4, 100 this gives Q1 = 2, Q3 = 4, IQR = 2, the
  bounds -1 and 7, the row with 100 removed and \<^verbatim>\<open>outlierCount\<close> = 1, also through
  \<^verbatim>\<open>cleanData\<close> with \<^verbatim>\<open>removeOutliers\<close>.

  The values and the bounds are doubles, and every operation rounds. On the column 0.1, 0.4,
  0.5, 0.6 the quartiles are the doubles of 0.4 and 0.6, and the bounds are the doubles
  0.10000000000000009 and 0.8999999999999999 and not 0.1 and 0.9: the row with 0.1 lies
  below the lower bound and is removed, and \<^verbatim>\<open>outlierCount\<close> is 1.
\<close>

theorem outlier_filter_iqr:
  "outlier_column (data, cnt) col =
     (case outlier_bounds data col of
        None \<Rightarrow> (data, cnt)
      | Some (lo, hi) \<Rightarrow> (filter (\<lambda>r. \<not> is_outlier col lo hi r) data,
                          cnt + length (filter (is_outlier col lo hi) data)))
   \<and> outlier_bounds data col =
     (let s = sort_numbers (numeric_values data col);
          q1 = s ! (length s div 4);
          q3 = s ! (3 * length s div 4)
      in if numeric_values data col = [] then None
         else Some (num_sub q1 (num_mul (Fin (3 / 2)) (num_sub q3 q1)),
                    num_add q3 (num_mul (Fin (3 / 2)) (num_sub q3 q1))))
   \<and> sorted (map num_key (sort_numbers (numeric_values data col)))
   \<and> mset (sort_numbers (numeric_values data col)) = mset (numeric_values data col)
   \<and> q1Idx n = n div 4 \<and> q3Idx n = 3 * n div 4
   \<and> outlier_bounds scenario_B ''value'' = Some (Fin (- 1), Fin 7)
   \<and> sort_numbers (numeric_values scenario_B ''value'') ! q1Idx 5 = Fin 2
   \<and> sort_numbers (numeric_values scenario_B ''value'') ! q3Idx 5 = Fin 4
   \<and> num_sub (Fin 4) (Fin 2) = Fin 2
   \<and> outlier_column (scenario_B, 0) ''value'' = (butlast scenario_B, 1)
   \<and> last scenario_B = [(''value'', JNum (Fin 100))]
   \<and> cleanData js_host (Rows scenario_B) (scenario_B_options False) =
     Inr (butlast scenario_B,
          \<lparr>totalRows = 5, totalColumns = 1, duplicatesRemoved = 0, nullValuesFixed = 0,
           columnsRenamed = [], dataTypeSummary = [], outlierCount = 1\<rparr>)
   \<and> cleanData js_host (Rows scenario_B_csv) (scenario_B_options True) =
     Inr (butlast scenario_B_csv,
          \<lparr>totalRows = 5, totalColumns = 1, duplicatesRemoved = 0, nullValuesFixed = 0,
           columnsRenamed = [\<lparr>original = ''value'', cleaned = ''value'', type = TInteger\<rparr>],
           dataTypeSummary = [(TInteger, 1)], outlierCount = 1\<rparr>)
   \<and> map (\<lambda>r. parseFloat (row_get r ''value'')) decimal_column =
     [Fin (3602879701896397 / 36028797018963968), Fin (3602879701896397 / 9007199254740992),
      Fin (1 / 2), Fin (5404319552844595 / 9007199254740992)]
   \<and> outlier_bounds decimal_column ''value'' =
     Some (Fin (225179981368525 / 2251799813685248), Fin (2026619832316723 / 2251799813685248))
   \<and> outlier_column (decimal_column, 0) ''value'' = (tl decimal_column, 1)
   \<and> hd decimal_column = [(''value'', JStr ''0.1'')]
   \<and> cleanData js_host (Rows decimal_column) (scenario_B_options True) =
     Inr (tl decimal_column,
          \<lparr>totalRows = 4, totalColumns = 1, duplicatesRemoved = 0, nullValuesFixed = 0,
           columnsRenamed = [\<lparr>original = ''value'', cleaned = ''value'', type = TFloat\<rparr>],
           dataTypeSummary = [(TFloat, 1)], outlierCount = 1\<rparr>)"
  using outlier_column_eq [of data cnt col] outlier_bounds_eq [of data col]
    sort_numbers_sorted [of "numeric_values data col"] q1Idx_div [of n] q3Idx_div [of n]
    scenario_B_values scenario_B_cleanData decimal_column_values
  by blast

theorem outlier_filter_iqr_witness:
  "outlier_column (scenario_B_csv, 0) ''value'' = (butlast scenario_B_csv, 1)"
proof -
  have b: "outlier_bounds scenario_B_csv ''value'' = Some (Fin (- 1), Fin 7)"
    by code_simp
  have f: "filter (\<lambda>r. \<not> is_outlier ''value'' (Fin (- 1)) (Fin 7) r) scenario_B_csv
             = butlast scenario_B_csv"
    by code_simp
  have c: "length (filter (is_outlier ''value'' (Fin (- 1)) (Fin 7)) scenario_B_csv) = 1"
    by code_simp
  from outlier_filter_iqr [of scenario_B_csv 0 "''value''" 5]
  have "outlier_column (scenario_B_csv, 0) ''value'' =
     (case outlier_bounds scenario_B_csv ''value'' of
        None \<Rightarrow> (scenario_B_csv, 0)
      | Some (lo, hi) \<Rightarrow> (filter (\<lambda>r. \<not> is_outlier ''value'' lo hi r) scenario_B_csv,
                          0 + length (filter (is_outlier ''value'' lo hi) scenario_B_csv)))"
    by (rule conjunct1)
  then show ?thesis by (simp add: b f c)
qed

subsection \<open>The only errors\<close>

lemma some_includes_dot_error: "some_includes_dot vs = Inl e \<Longrightarrow> e = TypeError"
  by (induction vs) (auto split: if_splits jsval.splits)

lemma infer_type_error: "infer_type H vs = Inl e \<Longrightarrow> e = TypeError"
  by (auto simp: infer_type_def split: if_splits sum.splits dest: some_includes_dot_error)

lemma standardize_column_error: "standardize_column H data s col = Inl e \<Longrightarrow> e = TypeError"
  by (cases s) (auto simp: standardize_column_def Let_def split: sum.splits dest: infer_type_error)

lemma standardize_error: "e = TypeError" if "standardize H data st = Inl e"
proof (cases data)
  case Nil
  then show ?thesis using that by (simp add: standardize_def)
next
  case (Cons first rest)
  with that have "fold_err (standardize_column H data) (obj_keys first) ([], st) = Inl e"
    by (auto simp: standardize_def split: sum.splits prod.splits)
  then show ?thesis
    by (rule fold_err_error [rotated]) (rule standardize_column_error)
qed

lemma most_common_error: "most_common c = Inl e \<Longrightarrow> e = TypeError"
  by (auto simp: most_common_def split: list.splits)

lemma replacement_value_error: "replacement_value H opts vals = Inl e \<Longrightarrow> e = TypeError"
  unfolding replacement_value_def Let_def
  by (cases "missingValueStrategy opts")
     (auto split: if_splits sum.splits dest: most_common_error)

lemma impute_column_error: "impute_column H opts s col = Inl e \<Longrightarrow> e = TypeError"
  by (cases s) (auto simp: impute_column_def Let_def split: if_splits sum.splits
      dest: replacement_value_error)

lemma impute_error: "e = TypeError" if "impute H opts data fixed = Inl e"
proof (cases data)
  case Nil
  then show ?thesis using that by (simp add: impute_def split: if_splits)
next
  case (Cons first rest)
  with that have "fold_err (impute_column H opts) (obj_keys first) (data, fixed) = Inl e"
    by (auto simp: impute_def split: if_splits)
  then show ?thesis
    by (rule fold_err_error [rotated]) (rule impute_column_error)
qed

lemma outliers_error: "outliers opts data cnt = Inl e \<Longrightarrow> e = TypeError"
  by (auto simp: outliers_def split: if_splits list.splits)

lemma coerce_error: "coerce H opts infos data = Inl e \<Longrightarrow> e = TypeError"
  by (auto simp: coerce_def split: if_splits list.splits)

subsection \<open>The steps of a run\<close>

lemma cleanData_Rows:
  "rows \<noteq> [] \<Longrightarrow> cleanData H (Rows rows) opts =
     (case stage1 H opts rows (initial_stats rows) of
        Inl e \<Rightarrow> Inl e
      | Inr (data1, st1) \<Rightarrow>
          (case impute H opts (fst (dedupe H data1)) (nullValuesFixed st1) of
             Inl e \<Rightarrow> Inl e
           | Inr (data3, fixed) \<Rightarrow>
               (case outliers opts data3 (outlierCount st1) of
                  Inl e \<Rightarrow> Inl e
                | Inr (data4, cnt) \<Rightarrow>
                    (case coerce H opts (columnsRenamed st1) data4 of
                       Inl e \<Rightarrow> Inl e
                     | Inr data5 \<Rightarrow>
                         Inr (data5, st1\<lparr>duplicatesRemoved := snd (dedupe H data1),
                                        nullValuesFixed := fixed, outlierCount := cnt\<rparr>)))))"
  by (cases rows)
     (auto simp: cleanData_def stage1_def initial_stats_def Let_def
           split: sum.splits prod.splits)

lemma cleanData_InrE:
  assumes "cleanData H (Rows rows) opts = Inr (res, st)"
  obtains data1 st1 data3 fixed data4 cnt where
    "rows \<noteq> []"
    "stage1 H opts rows (initial_stats rows) = Inr (data1, st1)"
    "impute H opts (fst (dedupe H data1)) (nullValuesFixed st1) = Inr (data3, fixed)"
    "outliers opts data3 (outlierCount st1) = Inr (data4, cnt)"
    "coerce H opts (columnsRenamed st1) data4 = Inr res"
    "st = st1\<lparr>duplicatesRemoved := snd (dedupe H data1), nullValuesFixed := fixed, outlierCount := cnt\<rparr>"
proof -
  from assms have ne: "rows \<noteq> []" by (auto simp: cleanData_def)
  from assms show ?thesis
    unfolding cleanData_Rows [OF ne]
    by (auto split: sum.splits prod.splits intro: that [OF ne])
qed

subsection \<open>Row counts\<close>

lemma standardize_column_counters:
  assumes "standardize_column H data (acc, st) col = Inr (acc', st')"
  shows "outlierCount st' = outlierCount st \<and> nullValuesFixed st' = nullValuesFixed st
         \<and> duplicatesRemoved st' = duplicatesRemoved st \<and> totalRows st' = totalRows st
         \<and> totalColumns st' = totalColumns st"
  using assms by (auto simp: standardize_column_def Let_def split: sum.splits)

lemma standardize_length:
  assumes "standardize H data st = Inr (data', st')"
  shows "length data' = length data"
  using assms by (auto simp: standardize_def split: list.splits sum.splits prod.splits)

lemma standardize_counters:
  assumes "standardize H data st = Inr (data', st')"
  shows "outlierCount st' = outlierCount st \<and> nullValuesFixed st' = nullValuesFixed st
         \<and> duplicatesRemoved st' = duplicatesRemoved st \<and> totalRows st' = totalRows st
         \<and> totalColumns st' = totalColumns st"
proof -
  from assms obtain first rest m where d: "data = first # rest"
    and f: "fold_err (standardize_column H data) (obj_keys first) ([], st) = Inr (m, st')"
    by (auto simp: standardize_def split: list.splits sum.splits prod.splits)
  let ?P = "\<lambda>s. outlierCount (snd s) = outlierCount st \<and> nullValuesFixed (snd s) = nullValuesFixed st
         \<and> duplicatesRemoved (snd s) = duplicatesRemoved st \<and> totalRows (snd s) = totalRows st
         \<and> totalColumns (snd s) = totalColumns st"
  have "?P (m, st')"
  proof (rule fold_err_invariant [OF f, where P = ?P])
    show "?P ([], st)" by simp
  next
    fix s x s' assume "?P s" and "standardize_column H data s x = Inr s'"
    then show "?P s'"
      using standardize_column_counters [of H data "fst s" "snd s" x "fst s'" "snd s'"] by simp
  qed
  then show ?thesis by simp
qed

lemma stage1_length:
  "stage1 H opts rows st = Inr (data1, st1) \<Longrightarrow> length data1 = length rows"
  by (auto simp: stage1_def standardize_length split: if_splits)

lemma stage1_counters:
  "stage1 H opts rows st = Inr (data1, st1) \<Longrightarrow>
     outlierCount st1 = outlierCount st \<and> nullValuesFixed st1 = nullValuesFixed st"
  by (auto simp: stage1_def split: if_splits dest: standardize_counters)

lemma dedupe_filter_length: "length (dedupe_filter H S rs) \<le> length rs"
  by (induction rs arbitrary: S) (auto simp: Let_def le_SucI)

lemma dedupe_length: "length (fst (dedupe H data)) + snd (dedupe H data) = length data"
  by (simp add: dedupe_def Let_def dedupe_filter_length)

lemma replace_missing_eq:
  "replace_missing col v rs n =
     (map (\<lambda>r. if is_missing (row_get r col) then obj_set r col v else r) rs,
      n + length (filter (\<lambda>r. is_missing (row_get r col)) rs))"
  by (induction rs arbitrary: n) simp_all

lemma impute_column_length:
  "impute_column H opts (data, fixed) col = Inr (data', fixed') \<Longrightarrow> length data' = length data"
  by (auto simp: impute_column_def Let_def replace_missing_eq split: if_splits sum.splits)

lemma impute_active:
  assumes "missingValueStrategy opts \<noteq> Constant \<or> constantValue opts \<noteq> None"
    and "impute H opts data fixed = Inr r"
  shows "data \<noteq> [] \<and> fold_err (impute_column H opts) (obj_keys (hd data)) (data, fixed) = Inr r"
  using assms by (cases data) (simp_all add: impute_def)

lemma impute_length:
  assumes "impute H opts data fixed = Inr (data', fixed')"
  shows "length data' = length data"
proof (cases "missingValueStrategy opts \<noteq> Constant \<or> constantValue opts \<noteq> None")
  case False
  with assms show ?thesis by (simp add: impute_def)
next
  case True
  from impute_active [OF True assms] have
    f: "fold_err (impute_column H opts) (obj_keys (hd data)) (data, fixed) = Inr (data', fixed')"
    by simp
  have "length (fst (data', fixed')) = length data"
  proof (rule fold_err_invariant [OF f, where P = "\<lambda>s. length (fst s) = length data"])
    show "length (fst (data, fixed)) = length data" by simp
  next
    fix s x s' assume "length (fst s) = length data" and "impute_column H opts s x = Inr s'"
    then show "length (fst s') = length data"
      using impute_column_length [of H opts "fst s" "snd s" x "fst s'" "snd s'"] by simp
  qed
  then show ?thesis by simp
qed

lemma outlier_column_length:
  "length (fst (outlier_column (data, cnt) col)) + snd (outlier_column (data, cnt) col)
     = length data + cnt"
  using sum_length_filter_compl [of "is_outlier col _ _" data]
  by (simp add: outlier_column_eq split: option.splits prod.splits) (metis add.commute)

lemma foldl_outlier_column_length:
  "length (fst (foldl outlier_column (data, cnt) cols)) + snd (foldl outlier_column (data, cnt) cols)
     = length data + cnt"
proof (induction cols arbitrary: data cnt)
  case Nil
  show ?case by simp
next
  case (Cons c cols)
  obtain d1 c1 where s: "outlier_column (data, cnt) c = (d1, c1)" by (cases "outlier_column (data, cnt) c")
  with outlier_column_length [of data cnt c] have "length d1 + c1 = length data + cnt" by simp
  with Cons.IH [of d1 c1] s show ?case by simp
qed

lemma outliers_length:
  "outliers opts data cnt = Inr (data', cnt') \<Longrightarrow> length data' + cnt' = length data + cnt"
  using foldl_outlier_column_length [of data cnt]
  by (auto simp: outliers_def split: if_splits list.splits) (metis fst_conv snd_conv)

lemma coerce_length: "coerce H opts infos data = Inr data' \<Longrightarrow> length data' = length data"
  by (auto simp: coerce_def split: if_splits list.splits)

text \<open>
  Claim C7. When \<^verbatim>\<open>cleanData\<close> returns, the cleaned dataset has at most as many rows as the
  raw dataset: the rows removed are the duplicates and the outliers, as the statistics
  count them, and the other steps keep the number of rows.
\<close>

theorem row_count_invariant:
  assumes "cleanData H (Rows rows) opts = Inr (res, st)"
  shows "length res \<le> length rows
         \<and> length res + duplicatesRemoved st + outlierCount st = length rows"
proof -
  from assms obtain data1 st1 data3 fixed data4 cnt where
    ne: "rows \<noteq> []"
    and s1: "stage1 H opts rows (initial_stats rows) = Inr (data1, st1)"
    and s3: "impute H opts (fst (dedupe H data1)) (nullValuesFixed st1) = Inr (data3, fixed)"
    and s4: "outliers opts data3 (outlierCount st1) = Inr (data4, cnt)"
    and s5: "coerce H opts (columnsRenamed st1) data4 = Inr res"
    and st: "st = st1\<lparr>duplicatesRemoved := snd (dedupe H data1), nullValuesFixed := fixed, outlierCount := cnt\<rparr>"
    by (rule cleanData_InrE)
  have l1: "length data1 = length rows" using s1 by (rule stage1_length)
  have c1: "outlierCount st1 = 0" using stage1_counters [OF s1] by (simp add: initial_stats_def)
  have l2: "length (fst (dedupe H data1)) + snd (dedupe H data1) = length data1"
    by (rule dedupe_length)
  have l3: "length data3 = length (fst (dedupe H data1))" using s3 by (rule impute_length)
  have l4: "length data4 + cnt = length data3" using outliers_length [OF s4] c1 by simp
  have l5: "length res = length data4" using s5 by (rule coerce_length)
  from l1 l2 l3 l4 l5 st show ?thesis by simp
qed

theorem row_count_invariant_witness:
  "length [[(''a_'', JStr ''1'')], [(''a_'', JStr ''0'')]]
     \<le> length [[(''A '', JStr ''1'')], [(''A '', JStr ''1'')], [(''A '', JStr [])]]
   \<and> length [[(''a_'', JStr ''1'')], [(''a_'', JStr ''0'')]]
       + duplicatesRemoved \<lparr>totalRows = 3, totalColumns = 1, duplicatesRemoved = 1,
           nullValuesFixed = 1,
           columnsRenamed = [\<lparr>original = ''A '', cleaned = ''a_'', type = TInteger\<rparr>],
           dataTypeSummary = [(TInteger, 1)], outlierCount = 0\<rparr>
       + outlierCount \<lparr>totalRows = 3, totalColumns = 1, duplicatesRemoved = 1,
           nullValuesFixed = 1,
           columnsRenamed = [\<lparr>original = ''A '', cleaned = ''a_'', type = TInteger\<rparr>],
           dataTypeSummary = [(TInteger, 1)], outlierCount = 0\<rparr>
     = length [[(''A '', JStr ''1'')], [(''A '', JStr ''1'')], [(''A '', JStr [])]]"
proof -
  have e: "cleanData js_host
             (Rows [[(''A '', JStr ''1'')], [(''A '', JStr ''1'')], [(''A '', JStr [])]])
             (scenario_A_options False) =
           Inr ([[(''a_'', JStr ''1'')], [(''a_'', JStr ''0'')]],
                \<lparr>totalRows = 3, totalColumns = 1, duplicatesRemoved = 1, nullValuesFixed = 1,
                 columnsRenamed = [\<lparr>original = ''A '', cleaned = ''a_'', type = TInteger\<rparr>],
                 dataTypeSummary = [(TInteger, 1)], outlierCount = 0\<rparr>)"
    by code_simp
  show ?thesis by (rule row_count_invariant [OF e])
qed

subsection \<open>Invalid input\<close>

text \<open>
  Claim C4, as the specification states it, fails: rows with different columns are no
  uniform row collection, and \<^verbatim>\<open>cleanData\<close> cleans them without an error.
\<close>

theorem nonuniform_rows_counterexample:
  "\<not> uniform_rows [[(''a'', JStr ''1'')], [(''b'', JStr ''2'')]]
   \<and> cleanData js_host (Rows [[(''a'', JStr ''1'')], [(''b'', JStr ''2'')]]) (default_options Mean)
       = Inr ([[(''a'', JNum (Fin 1))], [(''a'', JNum (Fin 1))]],
              \<lparr>totalRows = 2, totalColumns = 1, duplicatesRemoved = 0, nullValuesFixed = 1,
               columnsRenamed = [\<lparr>original = ''a'', cleaned = ''a'', type = TInteger\<rparr>],
               dataTypeSummary = [(TInteger, 1)], outlierCount = 0\<rparr>)"
  by code_simp

text \<open>
  Claim C4, amended. \<^verbatim>\<open>cleanData\<close> throws the error "Invalid data format" exactly when the
  raw data is no array or is the empty array; the columns of the rows are not compared.
  In particular the empty dataset gives this error and no result.
\<close>

theorem invalid_input_iff:
  "(cleanData H rawData opts = Inl InvalidDataFormat) = (rawData = NotArray \<or> rawData = Rows [])
   \<and> cleanData H (Rows []) opts = Inl InvalidDataFormat"
proof -
  have "cleanData H (Rows rows) opts \<noteq> Inl InvalidDataFormat" if ne: "rows \<noteq> []" for rows
  proof
    assume a: "cleanData H (Rows rows) opts = Inl InvalidDataFormat"
    have "stage1 H opts rows st = Inl e \<Longrightarrow> e = TypeError" for st e
      by (auto simp: stage1_def split: if_splits dest: standardize_error)
    with a show False
      unfolding cleanData_Rows [OF ne]
      by (auto split: sum.splits prod.splits
               dest: impute_error outliers_error coerce_error)
  qed
  then show ?thesis
    by (cases rawData) (auto simp: cleanData_def)
qed

subsection \<open>Number cells in type inference\<close>

lemma some_includes_dot_number:
  assumes "list_all (\<lambda>v. is_missing v \<or> number_cell v) vs"
    and "list_ex (\<lambda>v. number_cell v \<and> truthy v) vs"
  shows "some_includes_dot vs = Inl TypeError"
  using assms
proof (induction vs)
  case Nil
  then show ?case by simp
next
  case (Cons v vs)
  then show ?case
    by (cases v) (auto simp: is_missing_def number_cell_def)
qed

lemma infer_type_number:
  assumes "list_all numeric_ok vs"
    and "list_all (\<lambda>v. is_missing v \<or> number_cell v) vs"
    and "list_ex (\<lambda>v. number_cell v \<and> truthy v) vs"
  shows "infer_type H vs = Inl TypeError"
  using assms by (simp add: infer_type_def some_includes_dot_number)

text \<open>
  Claim C10. With \<^verbatim>\<open>standardizeColumnNames\<close>, when the sampled values of a column (the first
  100 rows) all pass the numeric check, are numbers where they are not missing, and one of
  them is a truthy number, type inference calls \<^verbatim>\<open>includes\<close> on a number and throws a
  \<^verbatim>\<open>TypeError\<close>; so does \<^verbatim>\<open>cleanData\<close>, instead of classifying the column.
\<close>

theorem number_cells_throw:
  assumes "standardizeColumnNames opts"
    and "rows \<noteq> []"
    and "col \<in> set (obj_keys (hd rows))"
    and "list_all numeric_ok (map (\<lambda>r. row_get r col) (take 100 rows))"
    and "list_all (\<lambda>v. is_missing v \<or> number_cell v) (map (\<lambda>r. row_get r col) (take 100 rows))"
    and "list_ex (\<lambda>v. number_cell v \<and> truthy v) (map (\<lambda>r. row_get r col) (take 100 rows))"
  shows "infer_type H (map (\<lambda>r. row_get r col) (take 100 rows)) = Inl TypeError
         \<and> cleanData H (Rows rows) opts = Inl TypeError"
proof -
  have i: "infer_type H (map (\<lambda>r. row_get r col) (take 100 rows)) = Inl TypeError"
    using assms(4,5,6) by (rule infer_type_number)
  have c: "standardize_column H rows s col = Inl TypeError" for s
    by (cases s) (simp add: standardize_column_def Let_def i)
  have "fold_err (standardize_column H rows) (obj_keys (hd rows)) ([], initial_stats rows)
          = Inl TypeError"
  proof (rule fold_err_throws [where P = "\<lambda>s. True", OF assms(3)])
    show "standardize_column H rows s col = Inl TypeError" for s by (rule c)
    show "e' = TypeError" if "standardize_column H rows s y = Inl e'" for s y e'
      using that by (rule standardize_column_error)
  qed simp_all
  with assms(2) have "standardize H rows (initial_stats rows) = Inl TypeError"
    by (cases rows) (simp_all add: standardize_def)
  with assms(1,2) have "cleanData H (Rows rows) opts = Inl TypeError"
    by (simp add: cleanData_Rows stage1_def)
  with i show ?thesis by simp
qed

theorem number_cells_throw_witness:
  "infer_type js_host (map (\<lambda>r. row_get r ''n'') (take 100 [[(''n'', JNum (Fin 1))]])) = Inl TypeError
   \<and> cleanData js_host (Rows [[(''n'', JNum (Fin 1))]]) (default_options Mean) = Inl TypeError"
proof -
  have 1: "standardizeColumnNames (default_options Mean)" by (simp add: default_options_def)
  have 2: "[[(''n'', JNum (Fin 1))]] \<noteq> []" by simp
  have 3: "''n'' \<in> set (obj_keys (hd [[(''n'', JNum (Fin 1))]]))" by (simp add: obj_keys_def)
  have 4: "list_all numeric_ok (map (\<lambda>r. row_get r ''n'') (take 100 [[(''n'', JNum (Fin 1))]]))"
    by code_simp
  have 5: "list_all (\<lambda>v. is_missing v \<or> number_cell v)
             (map (\<lambda>r. row_get r ''n'') (take 100 [[(''n'', JNum (Fin 1))]]))"
    by code_simp
  have 6: "list_ex (\<lambda>v. number_cell v \<and> truthy v)
             (map (\<lambda>r. row_get r ''n'') (take 100 [[(''n'', JNum (Fin 1))]]))"
    by code_simp
  show ?thesis by (rule number_cells_throw [OF 1 2 3 4 5 6])
qed

subsection \<open>A column with no value\<close>

lemma dedupe_filter_subset: "set (dedupe_filter H S rs) \<subseteq> set rs"
  by (induction rs arbitrary: S) (auto simp: Let_def)

lemma dedupe_filter_hd:
  "rs \<noteq> [] \<Longrightarrow> dedupe_filter H {} rs \<noteq> [] \<and> hd (dedupe_filter H {} rs) = hd rs"
  by (cases rs) (simp_all add: Let_def)

lemma replacement_value_no_values:
  "missingValueStrategy opts \<noteq> Constant \<Longrightarrow> replacement_value H opts [] = Inl TypeError"
  by (simp add: replacement_value_def count_values_def most_common_def)

lemma impute_column_all_missing:
  assumes "missingValueStrategy opts \<noteq> Constant"
    and "data \<noteq> []" and "\<forall>r\<in>set data. is_missing (row_get r col)"
  shows "impute_column H opts (data, fixed) col = Inl TypeError"
proof -
  have v: "filter (\<lambda>v. \<not> is_missing v) (map (\<lambda>r. row_get r col) data) = []"
    using assms(3) by (simp add: filter_empty_conv)
  have m: "filter (\<lambda>r. is_missing (row_get r col)) data = data"
    using assms(3) by simp
  show ?thesis
    using assms(1,2) by (simp add: impute_column_def v m replacement_value_no_values)
qed

lemma impute_column_keeps_missing:
  assumes "impute_column H opts (data, fixed) y = Inr (data', fixed')"
    and "y \<noteq> col" and "\<forall>r\<in>set data. is_missing (row_get r col)"
  shows "\<forall>r\<in>set data'. is_missing (row_get r col)"
  using assms
  by (auto simp: impute_column_def Let_def replace_missing_eq row_get_obj_set
           split: if_splits sum.splits)

subsection \<open>Imputation\<close>

lemma keys_obj_set: "fst ` set (obj_set ob k v) = insert k (fst ` set ob)"
proof -
  have "fst ` set (obj_set ob k v) = dom (map_of (obj_set ob k v))"
    by (simp add: dom_map_of_conv_image_fst)
  also have "\<dots> = insert k (dom (map_of ob))" by (simp add: map_of_obj_set)
  finally show ?thesis by (simp add: dom_map_of_conv_image_fst)
qed

lemma keys_foldl_obj_set:
  "fst ` set (foldl (\<lambda>acc k. obj_set acc k (g acc k)) acc ks) = fst ` set acc \<union> set ks"
  by (induction ks arbitrary: acc) (simp_all add: keys_obj_set)

lemma keys_count_values: "fst ` set (count_values ks) = set ks"
  unfolding count_values_def by (subst keys_foldl_obj_set) simp

lemma most_common_mem: "most_common c = Inr k \<Longrightarrow> k \<in> fst ` set c"
proof -
  assume a: "most_common c = Inr k"
  then obtain n rest where "sort_key (\<lambda>(k, c). - int c) c = (k, n) # rest"
    by (auto simp: most_common_def split: list.splits)
  then have "(k, n) \<in> set (sort_key (\<lambda>(k, c). - int c) c)" by simp
  then have "(k, n) \<in> set c" by simp
  then show ?thesis by force
qed

lemma most_common_count_values:
  "most_common (count_values ks) = Inr k \<Longrightarrow> k \<in> set ks"
  using most_common_mem [of "count_values ks" k] by (simp add: keys_count_values)

lemma num_to_string_nonempty: "\<forall>a. numToString H a \<noteq> [] \<Longrightarrow> num_to_string H n \<noteq> []"
  by (cases n) (simp_all add: num_to_string_def)

lemma to_string_nonempty:
  "\<forall>a. numToString H a \<noteq> [] \<Longrightarrow> \<not> is_missing v \<Longrightarrow> to_string H v \<noteq> []"
  by (cases v) (simp_all add: to_string_def is_missing_def num_to_string_nonempty)

lemma replacement_value_present:
  assumes host: "\<forall>a. numToString H a \<noteq> []"
    and strat: "missingValueStrategy opts \<noteq> Constant \<or> (\<exists>s. constantValue opts = Some s \<and> s \<noteq> [])"
    and vals: "\<forall>v\<in>set vals. \<not> is_missing v"
    and r: "replacement_value H opts vals = Inr v"
  shows "\<not> is_missing v"
proof -
  define nums where "nums = filter (\<lambda>v. \<not> isNaN v) (map parseFloat vals)"
  have rv: "replacement_value H opts vals =
     (if missingValueStrategy opts = Constant then
        Inr (JStr (case constantValue opts of None \<Rightarrow> [] | Some s \<Rightarrow> s))
      else if length nums > 0 then
             (case missingValueStrategy opts of
                Mean \<Rightarrow> Inr (JNum (mean_of nums))
              | Median \<Rightarrow> Inr (JNum (median_of nums))
              | Mode \<Rightarrow>
                  (case most_common (count_values (map (num_to_string H) nums)) of
                     Inl e \<Rightarrow> Inl e | Inr k \<Rightarrow> Inr (JStr k))
              | Constant \<Rightarrow> Inr JUndefined)
           else
             (case most_common (count_values (map (to_string H) vals)) of
                Inl e \<Rightarrow> Inl e | Inr k \<Rightarrow> Inr (JStr k)))"
    by (simp only: replacement_value_def Let_def nums_def)
  show ?thesis
  proof (cases "missingValueStrategy opts = Constant")
    case True
    with strat r show ?thesis by (auto simp: rv is_missing_def)
  next
    case False
    show ?thesis
    proof (cases "length nums > 0")
      case True
      show ?thesis
      proof (cases "missingValueStrategy opts")
        case Mean
        with True r show ?thesis by (auto simp: rv is_missing_def)
      next
        case Median
        with True r show ?thesis by (auto simp: rv is_missing_def)
      next
        case Mode
        with True r obtain k where k: "most_common (count_values (map (num_to_string H) nums)) = Inr k"
          and v: "v = JStr k"
          by (auto simp: rv split: sum.splits)
        from most_common_count_values [OF k] have "k \<in> set (map (num_to_string H) nums)" .
        then have "k \<noteq> []" using num_to_string_nonempty [OF host] by auto
        with v show ?thesis by (simp add: is_missing_def)
      next
        case Constant
        with False show ?thesis by simp
      qed
    next
      case nonum: False
      with False r obtain k where k: "most_common (count_values (map (to_string H) vals)) = Inr k"
        and v: "v = JStr k"
        by (auto simp: rv split: sum.splits)
      from most_common_count_values [OF k] have "k \<in> set (map (to_string H) vals)" .
      then have "k \<noteq> []" using to_string_nonempty [OF host] vals by auto
      with v show ?thesis by (simp add: is_missing_def)
    qed
  qed
qed

lemma impute_column_effect:
  assumes host: "\<forall>a. numToString H a \<noteq> []"
    and strat: "missingValueStrategy opts \<noteq> Constant \<or> (\<exists>s. constantValue opts = Some s \<and> s \<noteq> [])"
    and r: "impute_column H opts (data, fixed) col = Inr (data', fixed')"
  shows "\<exists>v. \<not> is_missing v \<and> data' = map (fill_missing col v) data
             \<and> fixed' = fixed + length (filter (\<lambda>r. is_missing (row_get r col)) data)"
proof (cases "length (filter (\<lambda>r. is_missing (row_get r col)) data) = 0")
  case True
  then have none: "\<forall>r\<in>set data. \<not> is_missing (row_get r col)"
    by (simp add: filter_empty_conv)
  from True r have "data' = data" and "fixed' = fixed"
    by (simp_all add: impute_column_def)
  moreover from none have "map (fill_missing col (JNum NaN)) data = data"
    by (simp add: fill_missing_def map_idI)
  ultimately show ?thesis using True
    by (intro exI [of _ "JNum NaN"]) (simp add: is_missing_def)
next
  case False
  let ?vals = "filter (\<lambda>v. \<not> is_missing v) (map (\<lambda>r. row_get r col) data)"
  from False r obtain v where v: "replacement_value H opts ?vals = Inr v"
    and d: "(data', fixed') = replace_missing col v data fixed"
    by (auto simp: impute_column_def Let_def split: sum.splits)
  have "\<not> is_missing v"
    by (rule replacement_value_present [OF host strat _ v]) simp
  with d show ?thesis
    by (intro exI [of _ v]) (simp add: replace_missing_eq fill_missing_def [abs_def])
qed

lemma fill_missing_get:
  "row_get (fill_missing c v r) col = (if col = c \<and> is_missing (row_get r c) then v else row_get r col)"
  by (simp add: fill_missing_def row_get_obj_set)

lemma finite_missing_cells: "finite (missing_cells d cs)"
proof (rule finite_subset)
  show "missing_cells d cs \<subseteq> {..<length d} \<times> set cs"
    by (auto simp: missing_cells_def)
qed simp

lemma missing_cells_fill:
  assumes "\<not> is_missing v"
  shows "missing_cells (map (fill_missing c v) d) cs = {p \<in> missing_cells d cs. snd p \<noteq> c}"
  using assms by (auto simp: missing_cells_def fill_missing_get split: if_splits)

lemma missing_cells_Cons:
  "missing_cells d (c # cs) =
     (\<lambda>i. (i, c)) ` {i. i < length d \<and> is_missing (row_get (d ! i) c)}
     \<union> {p \<in> missing_cells d cs. snd p \<noteq> c}"
  by (auto simp: missing_cells_def)

lemma card_missing_cells_Cons:
  "card (missing_cells d (c # cs)) =
     length (filter (\<lambda>r. is_missing (row_get r c)) d) + card {p \<in> missing_cells d cs. snd p \<noteq> c}"
proof -
  let ?A = "(\<lambda>i. (i, c)) ` {i. i < length d \<and> is_missing (row_get (d ! i) c)}"
  let ?B = "{p \<in> missing_cells d cs. snd p \<noteq> c}"
  have fA: "finite ?A" by simp
  have fB: "finite ?B" using finite_missing_cells [of d cs] by simp
  have dis: "?A \<inter> ?B = {}" by auto
  have "card ?A = card {i. i < length d \<and> is_missing (row_get (d ! i) c)}"
    by (rule card_image) (simp add: inj_on_def)
  also have "\<dots> = length (filter (\<lambda>r. is_missing (row_get r c)) d)"
    by (simp add: length_filter_conv_card)
  finally have cA: "card ?A = length (filter (\<lambda>r. is_missing (row_get r c)) d)" .
  have "card (?A \<union> ?B) = card ?A + card ?B"
    using fA fB dis by (rule card_Un_disjoint)
  with cA show ?thesis by (simp only: missing_cells_Cons)
qed

lemma impute_columns_effect:
  assumes host: "\<forall>a. numToString H a \<noteq> []"
    and strat: "missingValueStrategy opts \<noteq> Constant \<or> (\<exists>s. constantValue opts = Some s \<and> s \<noteq> [])"
  shows "fold_err (impute_column H opts) cs (d, fixed) = Inr (d', fixed') \<Longrightarrow>
     length d' = length d
     \<and> (\<forall>i<length d. \<forall>col.
           (col \<in> set cs \<longrightarrow> \<not> is_missing (row_get (d' ! i) col))
         \<and> (\<not> is_missing (row_get (d ! i) col) \<longrightarrow> row_get (d' ! i) col = row_get (d ! i) col))
     \<and> fixed' = fixed + card (missing_cells d cs)"
proof (induction cs arbitrary: d fixed)
  case Nil
  then show ?case by (simp add: missing_cells_def)
next
  case (Cons c cs)
  from Cons.prems obtain d1 f1 where
    step: "impute_column H opts (d, fixed) c = Inr (d1, f1)"
    and rest: "fold_err (impute_column H opts) cs (d1, f1) = Inr (d', fixed')"
    by (auto split: sum.splits)
  from impute_column_effect [OF host strat step] obtain v where
    nv: "\<not> is_missing v" and d1: "d1 = map (fill_missing c v) d"
    and f1: "f1 = fixed + length (filter (\<lambda>r. is_missing (row_get r c)) d)"
    by blast
  from Cons.IH [OF rest] have
    len: "length d' = length d1"
    and cells: "\<forall>i<length d1. \<forall>col.
           (col \<in> set cs \<longrightarrow> \<not> is_missing (row_get (d' ! i) col))
         \<and> (\<not> is_missing (row_get (d1 ! i) col) \<longrightarrow> row_get (d' ! i) col = row_get (d1 ! i) col)"
    and cnt: "fixed' = f1 + card (missing_cells d1 cs)"
    by simp_all
  have l1: "length d1 = length d" by (simp add: d1)
  have g1: "row_get (d1 ! i) col = (if col = c \<and> is_missing (row_get (d ! i) c) then v else row_get (d ! i) col)"
    if "i < length d" for i col
    using that by (simp add: d1 fill_missing_get)
  have A: "length d' = length d" using len l1 by simp
  have B: "(col \<in> set (c # cs) \<longrightarrow> \<not> is_missing (row_get (d' ! i) col))
         \<and> (\<not> is_missing (row_get (d ! i) col) \<longrightarrow> row_get (d' ! i) col = row_get (d ! i) col)"
    if i: "i < length d" for i col
  proof -
    from i l1 have i1: "i < length d1" by simp
    from cells i1 have
      c1: "col \<in> set cs \<Longrightarrow> \<not> is_missing (row_get (d' ! i) col)"
      and c2: "\<not> is_missing (row_get (d1 ! i) col) \<Longrightarrow> row_get (d' ! i) col = row_get (d1 ! i) col"
      by simp_all
    have filled: "\<not> is_missing (row_get (d1 ! i) c)"
      using nv g1 [OF i, of c] by simp
    have keep: "row_get (d1 ! i) col = row_get (d ! i) col" if "\<not> is_missing (row_get (d ! i) col)"
      using that g1 [OF i, of col] by auto
    have "\<not> is_missing (row_get (d' ! i) c)"
      using cells i1 filled by metis
    moreover have "row_get (d' ! i) col = row_get (d ! i) col" if "\<not> is_missing (row_get (d ! i) col)"
      using that keep c2 by simp
    ultimately show ?thesis using c1 by auto
  qed
  have "fixed' = fixed + length (filter (\<lambda>r. is_missing (row_get r c)) d)
                 + card {p \<in> missing_cells d cs. snd p \<noteq> c}"
    using cnt f1 by (simp add: d1 missing_cells_fill [OF nv])
  then have C: "fixed' = fixed + card (missing_cells d (c # cs))"
    by (simp add: card_missing_cells_Cons)
  from A B C show ?case by blast
qed

lemma show_int_nonempty: "show_int n \<noteq> []"
  by (subst show_int.simps) simp

lemma format_digits_nonempty: "ds \<noteq> [] \<Longrightarrow> format_digits ds n \<noteq> []"
  by (simp add: format_digits_def Let_def)

lemma number_to_string_nonempty: "number_to_string x \<noteq> []"
proof (cases "x = 0")
  case True
  then show ?thesis by (simp add: number_to_string_def)
next
  case False
  obtain s k where sk: "shortest_digits \<bar>x\<bar> (decimal_exponent \<bar>x\<bar>) 1 17 = (s, k)"
    by (cases "shortest_digits \<bar>x\<bar> (decimal_exponent \<bar>x\<bar>) 1 17")
  have "format_digits (hd (show_int s) # rev (dropWhile (\<lambda>c. c = CHR ''0'') (rev (tl (show_int s)))))
          (decimal_exponent \<bar>x\<bar> + int (length (show_int s)) - k) \<noteq> []"
    by (rule format_digits_nonempty) simp
  with False show ?thesis
    unfolding number_to_string_def Let_def sk by simp
qed

lemma js_host_numToString: "\<forall>a. numToString js_host a \<noteq> []"
  by (simp add: js_host_def number_to_string_nonempty)

text \<open>
  Claim C1, as the specification states it, fails: under the strategy "constant" with no
  \<^verbatim>\<open>constantValue\<close> the guard of line 159 skips the step, so a missing cell stays missing
  and \<^verbatim>\<open>nullValuesFixed\<close> stays 0; with the empty string as constant the cell is counted
  and is missing still.
\<close>

theorem imputation_skipped_counterexample:
  "is_missing (row_get ([[(''a'', JStr [])]] ! 0) ''a'')
   \<and> impute js_host (default_options Constant) [[(''a'', JStr [])]] 0 = Inr ([[(''a'', JStr [])]], 0)
   \<and> cleanData js_host (Rows [[(''a'', JStr [])]]) (default_options Constant) =
       Inr ([[(''a'', JStr [])]],
            \<lparr>totalRows = 1, totalColumns = 1, duplicatesRemoved = 0, nullValuesFixed = 0,
             columnsRenamed = [\<lparr>original = ''a'', cleaned = ''a'', type = TInteger\<rparr>],
             dataTypeSummary = [(TInteger, 1)], outlierCount = 0\<rparr>)
   \<and> impute js_host ((default_options Constant)\<lparr>constantValue := Some []\<rparr>) [[(''a'', JStr [])]] 0
       = Inr ([[(''a'', JStr [])]], 1)"
  by code_simp

text \<open>
  Claim C1, amended. Let the imputation step return, on a host whose rendering of a number
  is never empty. Under "constant" with no \<^verbatim>\<open>constantValue\<close> the step changes nothing. Under
  "mean", "median", "mode", or "constant" with a non-empty \<^verbatim>\<open>constantValue\<close>: the number of
  rows is kept, no cell of a column of the first row is missing afterwards, a cell that
  was not missing keeps its value, and \<^verbatim>\<open>nullValuesFixed\<close> grows by the number of cells of
  those columns that were missing.
\<close>

theorem imputation_completeness:
  assumes host: "\<forall>a. numToString H a \<noteq> []"
    and run: "impute H opts data fixed = Inr (data', fixed')"
  shows "(missingValueStrategy opts = Constant \<and> constantValue opts = None
            \<longrightarrow> data' = data \<and> fixed' = fixed)
       \<and> (missingValueStrategy opts \<noteq> Constant \<or> (\<exists>s. constantValue opts = Some s \<and> s \<noteq> [])
            \<longrightarrow> length data' = length data
              \<and> (\<forall>i<length data. \<forall>col.
                    (col \<in> set (obj_keys (hd data)) \<longrightarrow> \<not> is_missing (row_get (data' ! i) col))
                  \<and> (\<not> is_missing (row_get (data ! i) col)
                       \<longrightarrow> row_get (data' ! i) col = row_get (data ! i) col))
              \<and> fixed' = fixed + card (missing_cells data (obj_keys (hd data))))"
proof (intro conjI impI)
  assume "missingValueStrategy opts = Constant \<and> constantValue opts = None"
  with run show "data' = data" and "fixed' = fixed" by (simp_all add: impute_def)
next
  assume strat: "missingValueStrategy opts \<noteq> Constant \<or> (\<exists>s. constantValue opts = Some s \<and> s \<noteq> [])"
  then have active: "missingValueStrategy opts \<noteq> Constant \<or> constantValue opts \<noteq> None" by auto
  from impute_active [OF active run] have
    f: "fold_err (impute_column H opts) (obj_keys (hd data)) (data, fixed) = Inr (data', fixed')"
    by simp
  from impute_columns_effect [OF host strat f]
  show "length data' = length data"
    and "\<forall>i<length data. \<forall>col.
                    (col \<in> set (obj_keys (hd data)) \<longrightarrow> \<not> is_missing (row_get (data' ! i) col))
                  \<and> (\<not> is_missing (row_get (data ! i) col)
                       \<longrightarrow> row_get (data' ! i) col = row_get (data ! i) col)"
    and "fixed' = fixed + card (missing_cells data (obj_keys (hd data)))"
    by simp_all
qed

theorem imputation_completeness_witness:
  "length [[(''a'', JStr ''1''), (''b'', JStr ''x'')], [(''a'', JNum (Fin 1)), (''b'', JStr ''x'')]]
     = length [[(''a'', JStr ''1''), (''b'', JStr [])], [(''a'', JStr []), (''b'', JStr ''x'')]]
   \<and> \<not> is_missing (row_get
        ([[(''a'', JStr ''1''), (''b'', JStr ''x'')], [(''a'', JNum (Fin 1)), (''b'', JStr ''x'')]] ! 1) ''a'')
   \<and> (2 :: nat) = 0 + card (missing_cells
        [[(''a'', JStr ''1''), (''b'', JStr [])], [(''a'', JStr []), (''b'', JStr ''x'')]]
        (obj_keys (hd [[(''a'', JStr ''1''), (''b'', JStr [])], [(''a'', JStr []), (''b'', JStr ''x'')]])))"
proof -
  let ?W = "[[(''a'', JStr ''1''), (''b'', JStr [])], [(''a'', JStr []), (''b'', JStr ''x'')]]"
  let ?W' = "[[(''a'', JStr ''1''), (''b'', JStr ''x'')], [(''a'', JNum (Fin 1)), (''b'', JStr ''x'')]]"
  have run: "impute js_host (default_options Mean) ?W 0 = Inr (?W', 2)"
    by code_simp
  have strat: "missingValueStrategy (default_options Mean) \<noteq> Constant
      \<or> (\<exists>s. constantValue (default_options Mean) = Some s \<and> s \<noteq> [])"
    by (simp add: default_options_def)
  from imputation_completeness [OF js_host_numToString run] strat
  have inst: "length ?W' = length ?W
     \<and> (\<forall>i<length ?W. \<forall>col.
           (col \<in> set (obj_keys (hd ?W)) \<longrightarrow> \<not> is_missing (row_get (?W' ! i) col))
         \<and> (\<not> is_missing (row_get (?W ! i) col) \<longrightarrow> row_get (?W' ! i) col = row_get (?W ! i) col))
     \<and> (2 :: nat) = 0 + card (missing_cells ?W (obj_keys (hd ?W)))"
    by blast
  note cell = inst [THEN conjunct2, THEN conjunct1, rule_format, of 1 "''a''", THEN conjunct1, rule_format]
  have "\<not> is_missing (row_get (?W' ! 1) ''a'')"
    by (rule cell) (simp_all add: obj_keys_def)
  with inst show ?thesis by blast
qed

subsection \<open>Coercion\<close>

lemma coerce_cell_get:
  assumes "\<forall>col. row_get newRow col = (if col \<in> D then coerced_value H infos r col else row_get r col)"
  shows "row_get (coerce_cell H infos r newRow c) col
           = (if col \<in> insert c D then coerced_value H infos r col else row_get r col)"
  using assms
  by (auto simp: coerce_cell_def coerced_value_def Let_def row_get_obj_set
           split: option.splits data_type.splits)

lemma foldl_coerce_cell_get:
  assumes "\<forall>col. row_get newRow col = (if col \<in> D then coerced_value H infos r col else row_get r col)"
  shows "row_get (foldl (coerce_cell H infos r) newRow cs) col
           = (if col \<in> D \<union> set cs then coerced_value H infos r col else row_get r col)"
  using assms
proof (induction cs arbitrary: newRow D)
  case Nil
  then show ?case by simp
next
  case (Cons c cs)
  have "\<forall>col. row_get (coerce_cell H infos r newRow c) col
           = (if col \<in> insert c D then coerced_value H infos r col else row_get r col)"
    using coerce_cell_get [OF Cons.prems] by simp
  from Cons.IH [OF this] show ?case by simp
qed

lemma coerce_row_get:
  "row_get (coerce_row H infos columns r) col
     = (if col \<in> set columns then coerced_value H infos r col else row_get r col)"
  using foldl_coerce_cell_get [of r "{}" H infos r columns col] by (simp add: coerce_row_def)

lemma coerce_date_failure_keeps:
  assumes "col \<in> set columns" and "find (\<lambda>c. cleaned c = col) infos = Some info"
    and "type info = TDate" and "to_iso_date H (row_get r col) = None"
  shows "row_get (coerce_row H infos columns r) col = row_get r col"
  using assms by (simp add: coerce_row_get coerced_value_def Let_def)

lemma coerce_number_failure_NaN:
  assumes "col \<in> set columns" and "find (\<lambda>c. cleaned c = col) infos = Some info"
    and "\<not> is_missing (row_get r col)"
    and "type info = TInteger \<and> parseInt H (row_get r col) = NaN
         \<or> type info = TFloat \<and> parseFloat (row_get r col) = NaN"
  shows "row_get (coerce_row H infos columns r) col = JNum NaN"
  using assms by (auto simp: coerce_row_get coerced_value_def Let_def)

text \<open>
  Claim C2 against the code. A cell of an integer or float column whose value does not
  parse is not left unchanged: \<^verbatim>\<open>parseInt\<close> or \<^verbatim>\<open>parseFloat\<close> gives \<open>NaN\<close>, and line 284 or 286
  writes it into the row (lemma \<open>coerce_number_failure_NaN\<close>). Only the date branch keeps
  the value (lemma \<open>coerce_date_failure_keeps\<close>). The run below imputes the constant
  \<^verbatim>\<open>"N/A"\<close> into a float column and returns \<open>NaN\<close> in that cell.
\<close>

theorem coercion_failure_writes_NaN:
  "cleanData js_host (Rows [[(''x'', JStr ''1.5'')], [(''x'', JStr [])]])
       ((default_options Constant)\<lparr>constantValue := Some ''N/A''\<rparr>) =
     Inr ([[(''x'', JNum (Fin (3 / 2)))], [(''x'', JNum NaN)]],
          \<lparr>totalRows = 2, totalColumns = 1, duplicatesRemoved = 0, nullValuesFixed = 1,
           columnsRenamed = [\<lparr>original = ''x'', cleaned = ''x'', type = TFloat\<rparr>],
           dataTypeSummary = [(TFloat, 1)], outlierCount = 0\<rparr>)
   \<and> parseFloat (JStr ''N/A'') = NaN
   \<and> coerce js_host (default_options Mean)
         [\<lparr>original = ''n'', cleaned = ''n'', type = TInteger\<rparr>] [[(''n'', JStr ''abc'')]]
       = Inr [[(''n'', JNum NaN)]]
   \<and> parseInt js_host (JStr ''abc'') = NaN"
  by code_simp

subsection \<open>The run on the store\<close>

lemma extends_refl: "extends h h"
  by (simp add: extends_def)

lemma extends_trans: "extends h1 h2 \<Longrightarrow> extends h2 h3 \<Longrightarrow> extends h1 h3"
  by (auto simp: extends_def)

lemma extends_fresh: "extends h h' \<Longrightarrow> fresh h \<le> fresh h'"
  by (simp add: extends_def)

lemma extends_cells: "extends h h' \<Longrightarrow> a < fresh h \<Longrightarrow> cells h' a = cells h a"
  by (simp add: extends_def)

lemma get_row_extends: "extends h h' \<Longrightarrow> a < fresh h \<Longrightarrow> get_row h' a = get_row h a"
  by (simp add: get_row_def extends_def)

lemma get_arr_extends: "extends h h' \<Longrightarrow> a < fresh h \<Longrightarrow> get_arr h' a = get_arr h a"
  by (simp add: get_arr_def extends_def)

lemma map_get_row_extends:
  "extends h h' \<Longrightarrow> \<forall>r\<in>set refs. r < fresh h \<Longrightarrow> map (get_row h') refs = map (get_row h) refs"
  by (simp add: get_row_extends)

lemma deref_extends: "extends h h' \<Longrightarrow> valid_arr h d \<Longrightarrow> deref h' d = deref h d"
  by (simp add: deref_def valid_arr_def get_arr_extends map_get_row_extends)

lemma valid_arr_extends: "extends h h' \<Longrightarrow> valid_arr h d \<Longrightarrow> valid_arr h' d"
  using extends_fresh [of h h'] by (fastforce simp: valid_arr_def get_arr_extends)

lemma alloc_extends: "alloc h c = (a, h') \<Longrightarrow> extends h h'"
  by (auto simp: alloc_def extends_def)

lemma alloc_fresh: "alloc h c = (a, h') \<Longrightarrow> a = fresh h \<and> fresh h' = Suc (fresh h) \<and> cells h' a = Some c"
  by (auto simp: alloc_def)

lemma alloc_arr:
  assumes "alloc h (Arr refs) = (d, h')" and "\<forall>r\<in>set refs. r < fresh h"
  shows "extends h h' \<and> valid_arr h' d \<and> get_arr h' d = refs
         \<and> deref h' d = map (get_row h) refs"
proof -
  from assms(1) have e: "extends h h'" by (rule alloc_extends)
  from alloc_fresh [OF assms(1)] have f: "d = fresh h" "fresh h' = Suc (fresh h)"
    "cells h' d = Some (Arr refs)" by blast+
  have g: "get_arr h' d = refs" using f(3) by (simp add: get_arr_def)
  have v: "valid_arr h' d" unfolding valid_arr_def g f(2)
    using assms(2) f(1) by (auto simp: less_SucI)
  have "deref h' d = map (get_row h) refs"
    by (simp add: deref_def g map_get_row_extends [OF e assms(2)])
  with e v g show ?thesis by simp
qed

lemma fresh_write_prop [simp]: "fresh (write_prop h a k v) = fresh h"
  by (simp add: write_prop_def)

lemma get_row_write_prop:
  "get_row (write_prop h a k v) a' = (if a' = a then obj_set (get_row h a) k v else get_row h a')"
  by (simp add: write_prop_def get_row_def)

lemma write_prop_extends:
  "extends h0 h \<Longrightarrow> fresh h0 \<le> a \<Longrightarrow> extends h0 (write_prop h a k v)"
  by (auto simp: extends_def write_prop_def)

lemma map_h_sim:
  assumes f: "\<And>h r a h'. r < fresh h \<Longrightarrow> f h r = (a, h') \<Longrightarrow>
                extends h h' \<and> a < fresh h' \<and> get_row h' a = g (get_row h r)"
  shows "\<forall>r\<in>set refs. r < fresh h \<Longrightarrow> map_h f h refs = (as, h') \<Longrightarrow>
           extends h h' \<and> (\<forall>a\<in>set as. a < fresh h') \<and> map (get_row h') as = map g (map (get_row h) refs)"
proof (induction refs arbitrary: h as h')
  case Nil
  then show ?case by (simp add: extends_refl)
next
  case (Cons r rs)
  obtain a h1 where s1: "f h r = (a, h1)" by (cases "f h r")
  obtain as1 h2 where s2: "map_h f h1 rs = (as1, h2)" by (cases "map_h f h1 rs")
  from Cons.prems(2) s1 s2 have r: "as = a # as1" "h' = h2" by simp_all
  from Cons.prems(1) have rh: "r < fresh h" and rsh: "\<forall>r\<in>set rs. r < fresh h" by simp_all
  from f [OF rh s1] have e1: "extends h h1" and a1: "a < fresh h1"
    and g1: "get_row h1 a = g (get_row h r)" by simp_all
  have rs1: "\<forall>r\<in>set rs. r < fresh h1" using rsh extends_fresh [OF e1] by auto
  from Cons.IH [OF rs1 s2] have e2: "extends h1 h2" and a2: "\<forall>a\<in>set as1. a < fresh h2"
    and g2: "map (get_row h2) as1 = map g (map (get_row h1) rs)" by simp_all
  have "get_row h2 a = g (get_row h r)" using get_row_extends [OF e2 a1] g1 by simp
  moreover have "map (get_row h1) rs = map (get_row h) rs"
    by (rule map_get_row_extends [OF e1 rsh])
  moreover have "a < fresh h2" using a1 extends_fresh [OF e2] by simp
  ultimately show ?case using r g2 a2 extends_trans [OF e1 e2] by simp
qed

lemma foldl_rename_writes:
  assumes "r \<noteq> a" and "fresh h0 \<le> a"
  shows "extends h0 hs \<Longrightarrow>
     extends h0 (foldl (\<lambda>h' (originalCol, cleanedCol).
                    write_prop h' a cleanedCol (row_get (get_row h' r) originalCol)) hs m)
     \<and> fresh (foldl (\<lambda>h' (originalCol, cleanedCol).
                    write_prop h' a cleanedCol (row_get (get_row h' r) originalCol)) hs m) = fresh hs
     \<and> get_row (foldl (\<lambda>h' (originalCol, cleanedCol).
                    write_prop h' a cleanedCol (row_get (get_row h' r) originalCol)) hs m) a
         = foldl (\<lambda>newRow (originalCol, cleanedCol).
                    obj_set newRow cleanedCol (row_get (get_row hs r) originalCol)) (get_row hs a) m"
proof (induction m arbitrary: hs)
  case Nil
  then show ?case by simp
next
  case (Cons p m)
  obtain oc cc where p: "p = (oc, cc)" by (cases p)
  let ?h1 = "write_prop hs a cc (row_get (get_row hs r) oc)"
  have e1: "extends h0 ?h1" using Cons.prems assms(2) by (rule write_prop_extends)
  have r1: "get_row ?h1 r = get_row hs r" using assms(1) by (simp add: get_row_write_prop)
  have a1: "get_row ?h1 a = obj_set (get_row hs a) cc (row_get (get_row hs r) oc)"
    by (simp add: get_row_write_prop)
  from Cons.IH [OF e1] show ?case by (simp add: p r1 a1)
qed

lemma rename_row_h_sim:
  assumes "r < fresh h" and "rename_row_h m h r = (a, h')"
  shows "extends h h' \<and> a < fresh h' \<and> get_row h' a = rename_row m (get_row h r)"
proof -
  obtain h1 where al: "alloc h (Obj []) = (fresh h, h1)" by (simp add: alloc_def)
  from al assms(2) have a: "a = fresh h"
    and h': "h' = foldl (\<lambda>h' (originalCol, cleanedCol).
                    write_prop h' (fresh h) cleanedCol (row_get (get_row h' r) originalCol)) h1 m"
    by (auto simp: rename_row_h_def)
  have e1: "extends h h1" using al by (rule alloc_extends)
  have f1: "fresh h1 = Suc (fresh h)" and c1: "cells h1 (fresh h) = Some (Obj [])"
    using alloc_fresh [OF al] by simp_all
  have ne: "r \<noteq> fresh h" using assms(1) by simp
  have g1: "get_row h1 (fresh h) = []" using c1 by (simp add: get_row_def)
  have r1: "get_row h1 r = get_row h r" using e1 assms(1) by (rule get_row_extends)
  from foldl_rename_writes [OF ne order_refl e1, of m]
  show ?thesis unfolding h' [symmetric] a by (simp add: f1 g1 r1 rename_row_def)
qed

lemma coerce_cell_h_step:
  assumes "r \<noteq> a" and "fresh h0 \<le> a" and "extends h0 h"
  shows "extends h0 (coerce_cell_h H infos r a h col)
     \<and> fresh (coerce_cell_h H infos r a h col) = fresh h
     \<and> get_row (coerce_cell_h H infos r a h col) r = get_row h r
     \<and> get_row (coerce_cell_h H infos r a h col) a
         = coerce_cell H infos (get_row h r) (get_row h a) col"
  using assms
  by (auto simp: coerce_cell_h_def coerce_cell_def Let_def get_row_write_prop write_prop_extends
           split: option.splits data_type.splits)

lemma foldl_coerce_cell_h:
  assumes "r \<noteq> a" and "fresh h0 \<le> a"
  shows "extends h0 hs \<Longrightarrow>
     extends h0 (foldl (coerce_cell_h H infos r a) hs cols)
     \<and> fresh (foldl (coerce_cell_h H infos r a) hs cols) = fresh hs
     \<and> get_row (foldl (coerce_cell_h H infos r a) hs cols) a
         = foldl (coerce_cell H infos (get_row hs r)) (get_row hs a) cols"
proof (induction cols arbitrary: hs)
  case Nil
  then show ?case by simp
next
  case (Cons c cols)
  from coerce_cell_h_step [OF assms Cons.prems, of H infos c]
  have e1: "extends h0 (coerce_cell_h H infos r a hs c)"
    and f1: "fresh (coerce_cell_h H infos r a hs c) = fresh hs"
    and r1: "get_row (coerce_cell_h H infos r a hs c) r = get_row hs r"
    and a1: "get_row (coerce_cell_h H infos r a hs c) a = coerce_cell H infos (get_row hs r) (get_row hs a) c"
    by simp_all
  from Cons.IH [OF e1] show ?case by (simp add: f1 r1 a1)
qed

lemma coerce_row_h_sim:
  assumes "r < fresh h" and "coerce_row_h H infos cols h r = (a, h')"
  shows "extends h h' \<and> a < fresh h' \<and> get_row h' a = coerce_row H infos cols (get_row h r)"
proof -
  obtain h1 where al: "alloc h (Obj (get_row h r)) = (fresh h, h1)" by (simp add: alloc_def)
  from al assms(2) have a: "a = fresh h"
    and h': "h' = foldl (coerce_cell_h H infos r (fresh h)) h1 cols"
    by (auto simp: coerce_row_h_def)
  have e1: "extends h h1" using al by (rule alloc_extends)
  have f1: "fresh h1 = Suc (fresh h)" and c1: "cells h1 (fresh h) = Some (Obj (get_row h r))"
    using alloc_fresh [OF al] by simp_all
  have ne: "r \<noteq> fresh h" using assms(1) by simp
  have g1: "get_row h1 (fresh h) = get_row h r" using c1 by (simp add: get_row_def)
  have r1: "get_row h1 r = get_row h r" using e1 assms(1) by (rule get_row_extends)
  from foldl_coerce_cell_h [OF ne order_refl e1, of H infos cols]
  show ?thesis unfolding h' [symmetric] a by (simp add: f1 g1 r1 coerce_row_def)
qed

lemma dedupe_filter_h_sim:
  "map (get_row h) (dedupe_filter_h H h S refs) = dedupe_filter H S (map (get_row h) refs)"
  by (induction refs arbitrary: S) (simp_all add: Let_def)

lemma dedupe_filter_h_subset: "set (dedupe_filter_h H h S refs) \<subseteq> set refs"
  by (induction refs arbitrary: S) (auto simp: Let_def)

lemma filter_outliers_h_eq:
  "filter_outliers_h col lo hi h refs cnt =
     (filter (\<lambda>r. \<not> is_outlier col lo hi (get_row h r)) refs,
      cnt + length (filter (\<lambda>r. is_outlier col lo hi (get_row h r)) refs))"
  by (induction refs arbitrary: cnt) (auto simp: Let_def is_outlier_def)

lemma filter_outliers_h_sim:
  "filter_outliers col lo hi (map (get_row h) refs) cnt
     = (map (get_row h) (fst (filter_outliers_h col lo hi h refs cnt)),
        snd (filter_outliers_h col lo hi h refs cnt))"
  by (simp add: filter_outliers_eq filter_outliers_h_eq filter_map comp_def)

lemma replace_missing_h_sim:
  "\<forall>r\<in>set refs. r < fresh h \<Longrightarrow>
   replace_missing_h col v h refs fixed = ((refs', fixed'), h') \<Longrightarrow>
     extends h h' \<and> (\<forall>a\<in>set refs'. a < fresh h')
     \<and> replace_missing col v (map (get_row h) refs) fixed = (map (get_row h') refs', fixed')"
proof (induction refs arbitrary: h fixed refs' fixed' h')
  case Nil
  then show ?case by (simp add: extends_refl)
next
  case (Cons r rs)
  from Cons.prems(1) have rh: "r < fresh h" and rsh: "\<forall>r\<in>set rs. r < fresh h" by simp_all
  show ?case
  proof (cases "is_missing (row_get (get_row h r) col)")
    case True
    obtain h1 where al: "alloc h (Obj (get_row h r)) = (fresh h, h1)" by (simp add: alloc_def)
    let ?h2 = "write_prop h1 (fresh h) col v"
    obtain rs1 f1 h3 where rec: "replace_missing_h col v ?h2 rs (fixed + 1) = ((rs1, f1), h3)"
      by (metis surj_pair)
    from Cons.prems(2) True al rec have res: "refs' = fresh h # rs1" "fixed' = f1" "h' = h3"
      by simp_all
    have e1: "extends h h1" using al by (rule alloc_extends)
    have fr1: "fresh h1 = Suc (fresh h)" and c1: "cells h1 (fresh h) = Some (Obj (get_row h r))"
      using alloc_fresh [OF al] by simp_all
    have e2: "extends h ?h2" using e1 order_refl by (rule write_prop_extends)
    have fr2: "fresh ?h2 = Suc (fresh h)" by (simp add: fr1)
    have g1: "get_row h1 (fresh h) = get_row h r" using c1 by (simp add: get_row_def)
    have g2: "get_row ?h2 (fresh h) = obj_set (get_row h r) col v"
      by (simp add: get_row_write_prop g1)
    have rs2: "\<forall>r\<in>set rs. r < fresh ?h2" using rsh fr2 by auto
    from Cons.IH [OF rs2 rec] have e3: "extends ?h2 h3" and v3: "\<forall>a\<in>set rs1. a < fresh h3"
      and p3: "replace_missing col v (map (get_row ?h2) rs) (fixed + 1) = (map (get_row h3) rs1, f1)"
      by simp_all
    have m2: "map (get_row ?h2) rs = map (get_row h) rs" by (rule map_get_row_extends [OF e2 rsh])
    have g3: "get_row h3 (fresh h) = obj_set (get_row h r) col v"
      using get_row_extends [OF e3, of "fresh h"] fr2 g2 by simp
    have "fresh h < fresh h3" using extends_fresh [OF e3] fr2 by simp
    with v3 p3 m2 g3 True res extends_trans [OF e2 e3] show ?thesis by simp
  next
    case False
    obtain rs1 f1 h3 where rec: "replace_missing_h col v h rs fixed = ((rs1, f1), h3)"
      by (metis surj_pair)
    from Cons.prems(2) False rec have res: "refs' = r # rs1" "fixed' = f1" "h' = h3"
      by simp_all
    from Cons.IH [OF rsh rec] have e3: "extends h h3" and v3: "\<forall>a\<in>set rs1. a < fresh h3"
      and p3: "replace_missing col v (map (get_row h) rs) fixed = (map (get_row h3) rs1, f1)"
      by simp_all
    have "get_row h3 r = get_row h r" using e3 rh by (rule get_row_extends)
    moreover have "r < fresh h3" using rh extends_fresh [OF e3] by simp
    ultimately show ?thesis using v3 p3 False res e3 by simp
  qed
qed

lemma fold_err_sim:
  assumes step: "\<And>s t x. R s t \<Longrightarrow>
       (case f s x of Inl e \<Rightarrow> g t x = Inl e | Inr s' \<Rightarrow> (\<exists>t'. g t x = Inr t' \<and> R s' t'))"
  shows "R s t \<Longrightarrow>
       (case fold_err f xs s of Inl e \<Rightarrow> fold_err g xs t = Inl e
        | Inr s' \<Rightarrow> (\<exists>t'. fold_err g xs t = Inr t' \<and> R s' t'))"
proof (induction xs arbitrary: s t)
  case Nil
  then show ?case by simp
next
  case (Cons x xs)
  show ?case
  proof (cases "f s x")
    case (Inl e)
    with step [OF Cons.prems, of x] show ?thesis by simp
  next
    case (Inr s1)
    with step [OF Cons.prems, of x] obtain t1 where t1: "g t x = Inr t1" and r1: "R s1 t1"
      by auto
    from Cons.IH [OF r1] Inr t1 show ?thesis by (auto split: sum.splits)
  qed
qed

lemma foldl_sim:
  assumes step: "\<And>s t x. R s t \<Longrightarrow> R (f s x) (g t x)"
  shows "R s t \<Longrightarrow> R (foldl f s xs) (foldl g t xs)"
  by (induction xs arbitrary: s t) (simp_all add: step)

lemma filter_outliers_h_subset: "set (fst (filter_outliers_h col lo hi h refs cnt)) \<subseteq> set refs"
  by (simp add: filter_outliers_h_eq)

lemma standardize_h_sim:
  assumes v: "valid_arr h d"
  shows "case standardize_h H h d st of
           Inl e \<Rightarrow> standardize H (deref h d) st = Inl e
         | Inr ((d', st'), h') \<Rightarrow>
             standardize H (deref h d) st = Inr (deref h' d', st') \<and> extends h h' \<and> valid_arr h' d'"
proof (cases "get_arr h d")
  case Nil
  then show ?thesis by (simp add: standardize_h_def standardize_def deref_def)
next
  case (Cons first rest)
  then have dr: "deref h d = get_row h first # map (get_row h) rest" by (simp add: deref_def)
  from v Cons have refs: "\<forall>r\<in>set (first # rest). r < fresh h" by (simp add: valid_arr_def)
  show ?thesis
  proof (cases "fold_err (standardize_column H (deref h d)) (obj_keys (get_row h first)) ([], st)")
    case (Inl e)
    with Cons dr show ?thesis by (simp add: standardize_h_def standardize_def)
  next
    case (Inr ms)
    obtain m st' where ms: "ms = (m, st')" by (cases ms)
    obtain newRefs h1 where mh: "map_h (rename_row_h m) h (first # rest) = (newRefs, h1)"
      by (metis surj_pair)
    obtain d' h2 where al: "alloc h1 (Arr newRefs) = (d', h2)" by (metis surj_pair)
    have sh: "standardize_h H h d st = Inr ((d', st'), h2)"
      using Cons Inr ms mh al by (simp add: standardize_h_def)
    have sp: "standardize H (deref h d) st = Inr (map (rename_row m) (deref h d), st')"
      using Inr ms by (simp add: standardize_def dr [symmetric]) (simp add: dr)
    from map_h_sim [where f = "rename_row_h m" and g = "rename_row m", OF rename_row_h_sim refs mh]
    have e1: "extends h h1" and v1: "\<forall>a\<in>set newRefs. a < fresh h1"
      and g1: "map (get_row h1) newRefs = map (rename_row m) (map (get_row h) (first # rest))"
      by simp_all
    from alloc_arr [OF al v1] have e2: "extends h1 h2" and v2: "valid_arr h2 d'"
      and g2: "deref h2 d' = map (get_row h1) newRefs" by simp_all
    have "deref h2 d' = map (rename_row m) (deref h d)" using g1 g2 dr by simp
    with sh sp v2 extends_trans [OF e1 e2] show ?thesis by simp
  qed
qed

lemma dedupe_h_sim:
  assumes v: "valid_arr h d" and r: "dedupe_h H h d = ((d', n), h')"
  shows "dedupe H (deref h d) = (deref h' d', n) \<and> extends h h' \<and> valid_arr h' d'"
proof -
  let ?refs = "dedupe_filter_h H h {} (get_arr h d)"
  obtain d1 h1 where al: "alloc h (Arr ?refs) = (d1, h1)" by (metis surj_pair)
  from r al have res: "d' = d1" "h' = h1" "n = length (get_arr h d) - length ?refs"
    by (simp_all add: dedupe_h_def Let_def)
  have vr: "\<forall>r\<in>set ?refs. r < fresh h"
    using v dedupe_filter_h_subset [of H h "{}" "get_arr h d"] by (auto simp: valid_arr_def)
  from alloc_arr [OF al vr] have e: "extends h h1" and v1: "valid_arr h1 d1"
    and g: "deref h1 d1 = map (get_row h) ?refs" by simp_all
  have "dedupe H (deref h d) = (map (get_row h) ?refs, length (get_arr h d) - length ?refs)"
    by (simp add: dedupe_def Let_def deref_def dedupe_filter_h_sim [symmetric])
  with res e v1 g show ?thesis by simp
qed

lemma relatedI: "valid_arr h d \<Longrightarrow> extends h0 h \<Longrightarrow> related h0 ((d, x), h) (deref h d, x)"
  by (simp add: related_def)

lemma impute_column_h_step:
  assumes rel: "related h0 s t"
  shows "case impute_column_h H opts s col of
           Inl e \<Rightarrow> impute_column H opts t col = Inl e
         | Inr s' \<Rightarrow> (\<exists>t'. impute_column H opts t col = Inr t' \<and> related h0 s' t')"
proof -
  obtain d fixed h where s: "s = ((d, fixed), h)" by (metis surj_pair)
  from rel s have v: "valid_arr h d" and t: "t = (deref h d, fixed)" and e0: "extends h0 h"
    by (simp_all add: related_def)
  let ?rows = "deref h d"
  let ?vals = "filter (\<lambda>v. \<not> is_missing v) (map (\<lambda>r. row_get r col) ?rows)"
  let ?m = "length (filter (\<lambda>r. is_missing (row_get r col)) ?rows)"
  show ?thesis
  proof (cases "?m = 0")
    case True
    then have "impute_column_h H opts s col = Inr s" and "impute_column H opts t col = Inr t"
      by (simp_all add: impute_column_h_def impute_column_def s t)
    with rel show ?thesis by simp
  next
    case False
    show ?thesis
    proof (cases "replacement_value H opts ?vals")
      case (Inl e)
      with False show ?thesis by (simp add: impute_column_h_def impute_column_def s t)
    next
      case (Inr v0)
      obtain newRefs fixed' h1 where
        rm: "replace_missing_h col v0 h (get_arr h d) fixed = ((newRefs, fixed'), h1)"
        by (metis surj_pair)
      obtain d' h2 where al: "alloc h1 (Arr newRefs) = (d', h2)" by (metis surj_pair)
      have sh: "impute_column_h H opts s col = Inr ((d', fixed'), h2)"
        using False Inr rm al by (simp add: impute_column_h_def s)
      from v have refs: "\<forall>r\<in>set (get_arr h d). r < fresh h" by (simp add: valid_arr_def)
      from replace_missing_h_sim [OF refs rm] have e1: "extends h h1"
        and v1: "\<forall>a\<in>set newRefs. a < fresh h1"
        and p1: "replace_missing col v0 ?rows fixed = (map (get_row h1) newRefs, fixed')"
        by (simp_all add: deref_def)
      from alloc_arr [OF al v1] have e2: "extends h1 h2" and v2: "valid_arr h2 d'"
        and g2: "deref h2 d' = map (get_row h1) newRefs" by simp_all
      have sp: "impute_column H opts t col = Inr (deref h2 d', fixed')"
        using False Inr p1 g2 by (simp add: impute_column_def t)
      have "extends h0 h2" using e0 e1 e2 by (blast intro: extends_trans)
      with v2 have "related h0 ((d', fixed'), h2) (deref h2 d', fixed')" by (simp add: relatedI)
      with sh sp show ?thesis by simp
    qed
  qed
qed

lemma impute_h_sim:
  assumes v: "valid_arr h d"
  shows "case impute_h H opts h d fixed of
           Inl e \<Rightarrow> impute H opts (deref h d) fixed = Inl e
         | Inr ((d', fixed'), h') \<Rightarrow>
             impute H opts (deref h d) fixed = Inr (deref h' d', fixed')
             \<and> extends h h' \<and> valid_arr h' d'"
proof (cases "missingValueStrategy opts \<noteq> Constant \<or> constantValue opts \<noteq> None")
  case False
  with v show ?thesis by (simp add: impute_h_def impute_def extends_refl)
next
  case True
  show ?thesis
  proof (cases "get_arr h d")
    case Nil
    with True show ?thesis by (simp add: impute_h_def impute_def deref_def)
  next
    case (Cons first rest)
    then have dr: "deref h d = get_row h first # map (get_row h) rest" by (simp add: deref_def)
    have ih: "impute_h H opts h d fixed
                = fold_err (impute_column_h H opts) (obj_keys (get_row h first)) ((d, fixed), h)"
      using True Cons by (simp add: impute_h_def)
    have ip: "impute H opts (deref h d) fixed
                = fold_err (impute_column H opts) (obj_keys (get_row h first)) (deref h d, fixed)"
      using True by (simp add: impute_def dr [symmetric]) (simp add: dr)
    have rel: "related h ((d, fixed), h) (deref h d, fixed)"
      using v by (simp add: relatedI extends_refl)
    from fold_err_sim [where R = "related h" and f = "impute_column_h H opts"
        and g = "impute_column H opts" and xs = "obj_keys (get_row h first)",
        OF impute_column_h_step rel]
    show ?thesis unfolding ih ip
      by (auto simp: related_def split: sum.splits prod.splits)
  qed
qed

lemma outlier_column_h_step:
  assumes rel: "related h0 s t"
  shows "related h0 (outlier_column_h s col) (outlier_column t col)"
proof -
  obtain d cnt h where s: "s = ((d, cnt), h)" by (metis surj_pair)
  from rel s have v: "valid_arr h d" and t: "t = (deref h d, cnt)" and e0: "extends h0 h"
    by (simp_all add: related_def)
  show ?thesis
  proof (cases "outlier_bounds (deref h d) col")
    case None
    with rel show ?thesis by (simp add: outlier_column_h_def outlier_column_def s t)
  next
    case (Some b)
    obtain lo hi where b: "b = (lo, hi)" by (cases b)
    obtain frefs cnt' where fo: "filter_outliers_h col lo hi h (get_arr h d) cnt = (frefs, cnt')"
      by (metis surj_pair)
    obtain fd h1 where al: "alloc h (Arr frefs) = (fd, h1)" by (metis surj_pair)
    have fp: "filter_outliers col lo hi (deref h d) cnt = (map (get_row h) frefs, cnt')"
      using fo by (simp add: deref_def filter_outliers_h_sim)
    have vr: "\<forall>r\<in>set frefs. r < fresh h"
      using v filter_outliers_h_subset [of col lo hi h "get_arr h d" cnt] fo
      by (auto simp: valid_arr_def)
    from alloc_arr [OF al vr] have e1: "extends h h1" and v1: "valid_arr h1 fd"
      and g1: "deref h1 fd = map (get_row h) frefs" by simp_all
    have e01: "extends h0 h1" using e0 e1 by (rule extends_trans)
    have len: "length (deref h d) = length (get_arr h d)" by (simp add: deref_def)
    show ?thesis
    proof (cases "length frefs < length (get_arr h d)")
      case True
      then have "outlier_column_h s col = ((fd, cnt'), h1)"
        and "outlier_column t col = (deref h1 fd, cnt')"
        using Some b fo al fp g1 len by (simp_all add: outlier_column_h_def outlier_column_def s t)
      with v1 e01 show ?thesis by (simp add: relatedI)
    next
      case False
      then have "outlier_column_h s col = ((d, cnt'), h1)"
        and "outlier_column t col = (deref h1 d, cnt')"
        using Some b fo al fp len deref_extends [OF e1 v]
        by (simp_all add: outlier_column_h_def outlier_column_def s t)
      with valid_arr_extends [OF e1 v] e01 show ?thesis by (simp add: relatedI)
    qed
  qed
qed

lemma outliers_h_sim:
  assumes v: "valid_arr h d"
  shows "case outliers_h opts h d cnt of
           Inl e \<Rightarrow> outliers opts (deref h d) cnt = Inl e
         | Inr ((d', cnt'), h') \<Rightarrow>
             outliers opts (deref h d) cnt = Inr (deref h' d', cnt')
             \<and> extends h h' \<and> valid_arr h' d'"
proof (cases "removeOutliers opts")
  case False
  with v show ?thesis by (simp add: outliers_h_def outliers_def extends_refl)
next
  case True
  show ?thesis
  proof (cases "get_arr h d")
    case Nil
    with True show ?thesis by (simp add: outliers_h_def outliers_def deref_def)
  next
    case (Cons first rest)
    then have dr: "deref h d = get_row h first # map (get_row h) rest" by (simp add: deref_def)
    have oh: "outliers_h opts h d cnt
                = Inr (foldl outlier_column_h ((d, cnt), h) (obj_keys (get_row h first)))"
      using True Cons by (simp add: outliers_h_def)
    have op: "outliers opts (deref h d) cnt
                = Inr (foldl outlier_column (deref h d, cnt) (obj_keys (get_row h first)))"
      using True by (simp add: outliers_def dr [symmetric]) (simp add: dr)
    have rel: "related h ((d, cnt), h) (deref h d, cnt)"
      using v by (simp add: relatedI extends_refl)
    from foldl_sim [where R = "related h" and f = outlier_column_h and g = outlier_column
        and xs = "obj_keys (get_row h first)", OF outlier_column_h_step rel]
    show ?thesis unfolding oh op
      by (auto simp: related_def split: prod.splits)
  qed
qed

lemma coerce_h_sim:
  assumes v: "valid_arr h d"
  shows "case coerce_h H opts infos h d of
           Inl e \<Rightarrow> coerce H opts infos (deref h d) = Inl e
         | Inr (d', h') \<Rightarrow>
             coerce H opts infos (deref h d) = Inr (deref h' d') \<and> extends h h' \<and> valid_arr h' d'"
proof (cases "fixDataTypes opts")
  case False
  with v show ?thesis by (simp add: coerce_h_def coerce_def extends_refl)
next
  case True
  show ?thesis
  proof (cases "get_arr h d")
    case Nil
    with True show ?thesis by (simp add: coerce_h_def coerce_def deref_def)
  next
    case (Cons first rest)
    then have dr: "deref h d = get_row h first # map (get_row h) rest" by (simp add: deref_def)
    from v Cons have refs: "\<forall>r\<in>set (first # rest). r < fresh h" by (simp add: valid_arr_def)
    let ?cols = "obj_keys (get_row h first)"
    obtain newRefs h1 where mh: "map_h (coerce_row_h H infos ?cols) h (first # rest) = (newRefs, h1)"
      by (metis surj_pair)
    obtain d' h2 where al: "alloc h1 (Arr newRefs) = (d', h2)" by (metis surj_pair)
    have ch: "coerce_h H opts infos h d = Inr (d', h2)"
      using True Cons mh al by (simp add: coerce_h_def)
    have cp: "coerce H opts infos (deref h d) = Inr (map (coerce_row H infos ?cols) (deref h d))"
      using True by (simp add: coerce_def dr [symmetric]) (simp add: dr)
    from map_h_sim [where f = "coerce_row_h H infos ?cols" and g = "coerce_row H infos ?cols",
        OF coerce_row_h_sim refs mh]
    have e1: "extends h h1" and v1: "\<forall>a\<in>set newRefs. a < fresh h1"
      and g1: "map (get_row h1) newRefs
                 = map (coerce_row H infos ?cols) (map (get_row h) (first # rest))"
      by simp_all
    from alloc_arr [OF al v1] have e2: "extends h1 h2" and v2: "valid_arr h2 d'"
      and g2: "deref h2 d' = map (get_row h1) newRefs" by simp_all
    have "deref h2 d' = map (coerce_row H infos ?cols) (deref h d)" using g1 g2 dr by simp
    with ch cp v2 extends_trans [OF e1 e2] show ?thesis by simp
  qed
qed

lemma cleanData_h_Arr:
  assumes "cells h rawData = Some (Arr (first # rest))"
    and "alloc h (Arr (first # rest)) = (data0, h0)"
  shows "cleanData_h H h rawData opts =
     (case (if standardizeColumnNames opts
            then standardize_h H h0 data0 (initial_stats (map (get_row h) (first # rest)))
            else Inr ((data0, initial_stats (map (get_row h) (first # rest))), h0)) of
        Inl e \<Rightarrow> Inl e
      | Inr ((data1, st1), h1) \<Rightarrow>
          (case dedupe_h H h1 data1 of
             ((data2, removed), h2) \<Rightarrow>
               (case impute_h H opts h2 data2 (nullValuesFixed st1) of
                  Inl e \<Rightarrow> Inl e
                | Inr ((data3, fixed), h3) \<Rightarrow>
                    (case outliers_h opts h3 data3 (outlierCount st1) of
                       Inl e \<Rightarrow> Inl e
                     | Inr ((data4, cnt), h4) \<Rightarrow>
                         (case coerce_h H opts (columnsRenamed st1) h4 data4 of
                            Inl e \<Rightarrow> Inl e
                          | Inr (data5, h5) \<Rightarrow>
                              Inr ((data5, st1\<lparr>duplicatesRemoved := removed,
                                                nullValuesFixed := fixed, outlierCount := cnt\<rparr>),
                                   h5))))))"
  using assms
  by (simp add: cleanData_h_def initial_stats_def Let_def split: sum.splits prod.splits)

lemma cleanData_h_sim:
  assumes v: "valid_arr h rawData"
  shows "case cleanData_h H h rawData opts of
           Inl e \<Rightarrow> cleanData H (raw_of h rawData) opts = Inl e
         | Inr ((d, st), h') \<Rightarrow>
             cleanData H (raw_of h rawData) opts = Inr (deref h' d, st)
             \<and> extends h h' \<and> valid_arr h' d"
proof (cases "cells h rawData")
  case None
  then show ?thesis by (simp add: cleanData_h_def raw_of_def cleanData_def)
next
  case (Some c)
  show ?thesis
  proof (cases c)
    case (Obj r)
    with Some show ?thesis by (simp add: cleanData_h_def raw_of_def cleanData_def)
  next
    case (Arr refs)
    show ?thesis
    proof (cases refs)
      case Nil
      with Some Arr show ?thesis by (simp add: cleanData_h_def raw_of_def cleanData_def)
    next
      case (Cons first rest)
      define rows where "rows = map (get_row h) (first # rest)"
      let ?st0 = "initial_stats rows"
      from Some Arr Cons have cs: "cells h rawData = Some (Arr (first # rest))" by simp
      then have ga: "get_arr h rawData = first # rest" by (simp add: get_arr_def)
      from cs have raw: "raw_of h rawData = Rows rows" by (simp add: raw_of_def rows_def)
      from v ga have refs: "\<forall>r\<in>set (first # rest). r < fresh h" by (simp add: valid_arr_def)
      obtain data0 h0 where al: "alloc h (Arr (first # rest)) = (data0, h0)" by (metis surj_pair)
      from alloc_arr [OF al refs] have e0: "extends h h0" and v0: "valid_arr h0 data0"
        and g0: "deref h0 data0 = rows" by (simp_all add: rows_def)
      note ch = cleanData_h_Arr [OF cs al, of H opts, folded rows_def]
      have ne: "rows \<noteq> []" by (simp add: rows_def)
      note cp = cleanData_Rows [OF ne, of H opts]
      let ?S1 = "if standardizeColumnNames opts then standardize_h H h0 data0 ?st0
                 else Inr ((data0, ?st0), h0)"
      have s1: "case ?S1 of
                  Inl e \<Rightarrow> stage1 H opts rows ?st0 = Inl e
                | Inr ((d1, st1), h1) \<Rightarrow>
                    stage1 H opts rows ?st0 = Inr (deref h1 d1, st1)
                    \<and> extends h0 h1 \<and> valid_arr h1 d1"
      proof (cases "standardizeColumnNames opts")
        case True
        then have a: "?S1 = standardize_h H h0 data0 ?st0" by (simp only: if_True)
        have b: "stage1 H opts rows ?st0 = standardize H (deref h0 data0) ?st0"
          using True by (simp only: stage1_def g0 if_True)
        show ?thesis unfolding a b by (rule standardize_h_sim [OF v0])
      next
        case False
        then have a: "?S1 = Inr ((data0, ?st0), h0)" by (simp only: if_False)
        have b: "stage1 H opts rows ?st0 = Inr (deref h0 data0, ?st0)"
          using False by (simp only: stage1_def g0 if_False)
        show ?thesis unfolding a b using v0 by (simp add: extends_refl)
      qed
      show ?thesis
      proof (cases ?S1)
        case (Inl e)
        with s1 have "stage1 H opts rows ?st0 = Inl e" by simp
        with Inl show ?thesis by (simp add: ch cp raw)
      next
        case (Inr x1)
        obtain d1 st1 h1 where x1: "x1 = ((d1, st1), h1)" by (metis surj_pair)
        from s1 Inr x1 have p1: "stage1 H opts rows ?st0 = Inr (deref h1 d1, st1)"
          and e1: "extends h0 h1" and v1: "valid_arr h1 d1" by simp_all
        obtain d2 removed h2 where dd: "dedupe_h H h1 d1 = ((d2, removed), h2)"
          by (metis surj_pair)
        from dedupe_h_sim [OF v1 dd] have p2: "dedupe H (deref h1 d1) = (deref h2 d2, removed)"
          and e2: "extends h1 h2" and v2: "valid_arr h2 d2" by simp_all
        note s3 = impute_h_sim [OF v2, of H opts "nullValuesFixed st1"]
        show ?thesis
        proof (cases "impute_h H opts h2 d2 (nullValuesFixed st1)")
          case (Inl e)
          with s3 have "impute H opts (deref h2 d2) (nullValuesFixed st1) = Inl e" by simp
          with Inl Inr x1 dd p1 p2 show ?thesis by (simp add: ch cp raw)
        next
          case i3: (Inr x3)
          obtain d3 fixed h3 where x3: "x3 = ((d3, fixed), h3)" by (metis surj_pair)
          from s3 i3 x3 have
            p3: "impute H opts (deref h2 d2) (nullValuesFixed st1) = Inr (deref h3 d3, fixed)"
            and e3: "extends h2 h3" and v3: "valid_arr h3 d3" by simp_all
          note s4 = outliers_h_sim [OF v3, of opts "outlierCount st1"]
          show ?thesis
          proof (cases "outliers_h opts h3 d3 (outlierCount st1)")
            case (Inl e)
            with s4 have "outliers opts (deref h3 d3) (outlierCount st1) = Inl e" by simp
            with Inl Inr x1 dd i3 x3 p1 p2 p3 show ?thesis by (simp add: ch cp raw)
          next
            case i4: (Inr x4)
            obtain d4 cnt h4 where x4: "x4 = ((d4, cnt), h4)" by (metis surj_pair)
            from s4 i4 x4 have
              p4: "outliers opts (deref h3 d3) (outlierCount st1) = Inr (deref h4 d4, cnt)"
              and e4: "extends h3 h4" and v4: "valid_arr h4 d4" by simp_all
            note s5 = coerce_h_sim [OF v4, of H opts "columnsRenamed st1"]
            show ?thesis
            proof (cases "coerce_h H opts (columnsRenamed st1) h4 d4")
              case (Inl e)
              with s5 have "coerce H opts (columnsRenamed st1) (deref h4 d4) = Inl e" by simp
              with Inl Inr x1 dd i3 x3 i4 x4 p1 p2 p3 p4 show ?thesis by (simp add: ch cp raw)
            next
              case i5: (Inr x5)
              obtain d5 h5 where x5: "x5 = (d5, h5)" by (cases x5)
              from s5 i5 x5 have
                p5: "coerce H opts (columnsRenamed st1) (deref h4 d4) = Inr (deref h5 d5)"
                and e5: "extends h4 h5" and v5: "valid_arr h5 d5" by simp_all
              have e: "extends h h5"
                using e0 e1 e2 e3 e4 e5 by (blast intro: extends_trans)
              from Inr x1 dd i3 x3 i4 x4 i5 x5 p1 p2 p3 p4 p5 e v5
              show ?thesis by (simp add: ch cp raw)
            qed
          qed
        qed
      qed
    qed
  qed
qed

text \<open>
  Claim C6. When a run returns, the raw dataset is as it was: the array at the address of
  \<^verbatim>\<open>rawData\<close> holds the same row addresses, every row object it refers to holds the same
  properties, and so the dataset read from the store is the same before and after. The
  result in the store is the result of \<^verbatim>\<open>cleanData\<close> on the values.
\<close>

theorem raw_dataset_not_mutated:
  assumes run: "cleanData_h H h rawData opts = Inr ((d, st), h')"
    and v: "valid_arr h rawData"
  shows "cells h' rawData = cells h rawData
       \<and> get_arr h' rawData = get_arr h rawData
       \<and> (\<forall>r\<in>set (get_arr h rawData). cells h' r = cells h r)
       \<and> raw_of h' rawData = raw_of h rawData
       \<and> cleanData H (raw_of h rawData) opts = Inr (deref h' d, st)"
proof -
  from cleanData_h_sim [OF v, of H opts] run
  have p: "cleanData H (raw_of h rawData) opts = Inr (deref h' d, st)"
    and e: "extends h h'" by simp_all
  from v have a: "rawData < fresh h" and rs: "\<forall>r\<in>set (get_arr h rawData). r < fresh h"
    by (simp_all add: valid_arr_def)
  have c: "cells h' rawData = cells h rawData" using e a by (rule extends_cells)
  have g: "get_arr h' rawData = get_arr h rawData" using e a by (rule get_arr_extends)
  have r: "\<forall>r\<in>set (get_arr h rawData). cells h' r = cells h r"
    using rs extends_cells [OF e] by simp
  have "map (get_row h') refs = map (get_row h) refs" if "cells h rawData = Some (Arr refs)" for refs
  proof (rule map_get_row_extends [OF e])
    from that have "get_arr h rawData = refs" by (simp add: get_arr_def)
    with rs show "\<forall>r\<in>set refs. r < fresh h" by simp
  qed
  then have "raw_of h' rawData = raw_of h rawData"
    by (simp add: raw_of_def c split: option.splits cell.splits)
  with c g r p show ?thesis by simp
qed

theorem raw_dataset_not_mutated_witness:
  "cells (snd (projr (cleanData_h js_host scenario_A_heap 3 (scenario_A_options False)))) 3
     = cells scenario_A_heap 3
   \<and> raw_of (snd (projr (cleanData_h js_host scenario_A_heap 3 (scenario_A_options False)))) 3
     = raw_of scenario_A_heap 3"
proof -
  let ?R = "cleanData_h js_host scenario_A_heap 3 (scenario_A_options False)"
  have v: "valid_arr scenario_A_heap 3"
    by (simp add: valid_arr_def get_arr_def scenario_A_heap_def)
  have raw: "raw_of scenario_A_heap 3 = scenario_A"
    by (simp add: raw_of_def scenario_A_heap_def scenario_A_def get_row_def)
  have pure: "\<not> isl (cleanData js_host scenario_A (scenario_A_options False))"
    by code_simp
  from cleanData_h_sim [OF v, of js_host "scenario_A_options False"] pure
  have "\<not> isl ?R" unfolding raw by (cases ?R) auto
  then have run: "?R = Inr ((fst (fst (projr ?R)), snd (fst (projr ?R))), snd (projr ?R))"
    by (cases ?R) simp_all
  note t = raw_dataset_not_mutated [OF run v]
  from t [THEN conjunct1] t [THEN conjunct2, THEN conjunct2, THEN conjunct2, THEN conjunct1]
  show ?thesis by (rule conjI)
qed

subsection \<open>A column with no value, through the whole run\<close>

lemma set_obj_replace: "set (obj_replace k v ob) \<subseteq> insert (k, v) (set ob)"
  by (induction ob) (auto split: if_splits)

lemma set_obj_insert_index: "set (obj_insert_index n k v ob) = insert (k, v) (set ob)"
  by (induction ob) (auto split: option.splits if_splits)

lemma set_obj_set: "set (obj_set ob k v) \<subseteq> insert (k, v) (set ob)"
  using set_obj_replace [of k v ob]
  by (auto simp: obj_set_def set_obj_insert_index split: option.splits)

lemma standardize_column_mapping:
  "standardize_column H data (acc, st) c = Inr (acc', st') \<Longrightarrow> acc' = obj_set acc c (clean_name c)"
  by (auto simp: standardize_column_def Let_def split: sum.splits)

lemma standardize_mapping:
  "fold_err (standardize_column H data) ks (acc, st) = Inr (m, st') \<Longrightarrow>
   \<forall>p\<in>set acc. snd p = clean_name (fst p) \<Longrightarrow>
     (\<forall>p\<in>set m. snd p = clean_name (fst p)) \<and> fst ` set m = fst ` set acc \<union> set ks"
proof (induction ks arbitrary: acc st)
  case Nil
  then show ?case by simp
next
  case (Cons c ks)
  from Cons.prems(1) obtain s1 where s1: "standardize_column H data (acc, st) c = Inr s1"
    and rest: "fold_err (standardize_column H data) ks s1 = Inr (m, st')"
    by (auto split: sum.splits)
  obtain acc1 st1 where p: "s1 = (acc1, st1)" by (cases s1)
  from standardize_column_mapping [OF s1 [unfolded p]] have a1: "acc1 = obj_set acc c (clean_name c)" .
  have inv: "\<forall>p\<in>set acc1. snd p = clean_name (fst p)"
    using Cons.prems(2) set_obj_set [of acc c "clean_name c"] unfolding a1 by auto
  from Cons.IH [OF rest [unfolded p] inv] show ?case
    by (auto simp: a1 keys_obj_set)
qed

lemma rename_row_lookup:
  "\<forall>p\<in>set m. snd p = k \<longrightarrow> row_get r (fst p) = v \<Longrightarrow>
   map_of acc k = Some v \<or> (\<exists>p\<in>set m. snd p = k) \<Longrightarrow>
     map_of (foldl (\<lambda>newRow (originalCol, cleanedCol).
                      obj_set newRow cleanedCol (row_get r originalCol)) acc m) k = Some v"
proof (induction m arbitrary: acc)
  case Nil
  then show ?case by simp
next
  case (Cons p m)
  obtain oc cc where p: "p = (oc, cc)" by (cases p)
  have "map_of (obj_set acc cc (row_get r oc)) k = Some v \<or> (\<exists>p\<in>set m. snd p = k)"
    using Cons.prems by (auto simp: p map_of_obj_set)
  moreover have "\<forall>p\<in>set m. snd p = k \<longrightarrow> row_get r (fst p) = v" using Cons.prems(1) by simp
  ultimately show ?case using Cons.IH [of "obj_set acc cc (row_get r oc)"] by (simp add: p)
qed

lemma rename_row_get:
  assumes "\<forall>p\<in>set m. snd p = k \<longrightarrow> row_get r (fst p) = v" and "\<exists>p\<in>set m. snd p = k"
  shows "row_get (rename_row m r) k = v \<and> k \<in> set (obj_keys (rename_row m r))"
proof -
  have l: "map_of (rename_row m r) k = Some v"
    unfolding rename_row_def using assms by (intro rename_row_lookup) auto
  then have "k \<in> fst ` set (rename_row m r)" by (metis map_of_eq_None_iff option.distinct(1))
  with l show ?thesis by (simp add: row_get_def obj_keys_def)
qed

lemma standardize_keeps_column:
  assumes s: "standardize H rows st = Inr (data1, st1)"
    and col: "col \<in> set (obj_keys (hd rows))"
    and inj: "\<forall>c\<in>set (obj_keys (hd rows)). clean_name c = clean_name col \<longrightarrow> c = col"
  shows "data1 \<noteq> [] \<and> clean_name col \<in> set (obj_keys (hd data1))
         \<and> ((\<forall>r\<in>set rows. is_missing (row_get r col))
              \<longrightarrow> (\<forall>r\<in>set data1. is_missing (row_get r (clean_name col))))"
proof -
  from s obtain first rest m where rows: "rows = first # rest"
    and f: "fold_err (standardize_column H rows) (obj_keys first) ([], st) = Inr (m, st1)"
    and d1: "data1 = map (rename_row m) rows"
    by (auto simp: standardize_def split: list.splits sum.splits prod.splits)
  from standardize_mapping [OF f] have inv: "\<forall>p\<in>set m. snd p = clean_name (fst p)"
    and ks: "fst ` set m = set (obj_keys first)" by simp_all
  from col rows ks have "col \<in> fst ` set m" by simp
  then obtain p where p: "p \<in> set m" "fst p = col" by auto
  with inv have ex: "\<exists>p\<in>set m. snd p = clean_name col" by auto
  have all: "\<forall>p\<in>set m. snd p = clean_name col \<longrightarrow> row_get r (fst p) = row_get r col" for r
  proof (intro ballI impI)
    fix p assume pm: "p \<in> set m" and sp: "snd p = clean_name col"
    from pm ks have "fst p \<in> set (obj_keys (hd rows))" by (auto simp: rows)
    moreover from pm inv sp have "clean_name (fst p) = clean_name col" by auto
    ultimately have "fst p = col" using inj by blast
    then show "row_get r (fst p) = row_get r col" by simp
  qed
  have g: "row_get (rename_row m r) (clean_name col) = row_get r col
           \<and> clean_name col \<in> set (obj_keys (rename_row m r))" for r
    by (rule rename_row_get [OF all ex])
  show ?thesis using g by (auto simp: d1 rows)
qed

lemma impute_empty_column_throws:
  assumes strat: "missingValueStrategy opts \<noteq> Constant"
    and ne: "data \<noteq> []"
    and col: "col \<in> set (obj_keys (hd data))"
    and mis: "\<forall>r\<in>set data. is_missing (row_get r col)"
  shows "impute H opts (fst (dedupe H data)) n = Inl TypeError"
proof -
  let ?data = "fst (dedupe H data)"
  let ?P = "\<lambda>s. fst s \<noteq> [] \<and> (\<forall>r\<in>set (fst s). is_missing (row_get r col))"
  have d: "?data = dedupe_filter H {} data" by (simp add: dedupe_def Let_def)
  have ne2: "?data \<noteq> []" and h: "hd ?data = hd data"
    using dedupe_filter_hd [OF ne, of H] by (simp_all add: d)
  have mis2: "\<forall>r\<in>set ?data. is_missing (row_get r col)"
    using mis dedupe_filter_subset [of H "{}" data] by (auto simp: d)
  have "fold_err (impute_column H opts) (obj_keys (hd ?data)) (?data, n) = Inl TypeError"
  proof (rule fold_err_throws [where P = ?P])
    show "col \<in> set (obj_keys (hd ?data))" using col h by simp
    show "?P (?data, n)" using ne2 mis2 by simp
    show "impute_column H opts s col = Inl TypeError" if "?P s" for s
      using that impute_column_all_missing [OF strat, of "fst s" col H "snd s"] by simp
    show "e' = TypeError" if "impute_column H opts s y = Inl e'" for s y e'
      using that by (rule impute_column_error)
    show "?P s'" if p: "?P s" and i: "impute_column H opts s y = Inr s'" for s y s'
    proof -
      have "y \<noteq> col"
        using p i impute_column_all_missing [OF strat, of "fst s" col H "snd s"] by auto
      with p i impute_column_keeps_missing [of H opts "fst s" "snd s" y "fst s'" "snd s'" col]
      have "\<forall>r\<in>set (fst s'). is_missing (row_get r col)" by simp
      moreover have "length (fst s') = length (fst s)"
        using i impute_column_length [of H opts "fst s" "snd s" y "fst s'" "snd s'"] by simp
      ultimately show ?thesis using p by auto
    qed
  qed
  then show ?thesis
    using strat ne2 by (cases ?data) (simp_all add: impute_def)
qed

text \<open>
  Claim C9. A non-empty dataset with a column of the first row whose every cell is missing
  makes \<^verbatim>\<open>cleanData\<close> throw a \<^verbatim>\<open>TypeError\<close> under the strategies "mean", "median" and
  "mode": the column has no value, the fallback to the mode sorts an empty list of counts
  and reads element 0 of \<^verbatim>\<open>undefined\<close>. With \<^verbatim>\<open>standardizeColumnNames\<close> the column must keep
  a name of its own, since two columns renamed to one name are merged.
\<close>

theorem empty_column_throws:
  assumes strat: "missingValueStrategy opts \<noteq> Constant"
    and ne: "rows \<noteq> []"
    and col: "col \<in> set (obj_keys (hd rows))"
    and mis: "\<forall>r\<in>set rows. is_missing (row_get r col)"
    and inj: "standardizeColumnNames opts \<longrightarrow>
       (\<forall>c\<in>set (obj_keys (hd rows)). clean_name c = clean_name col \<longrightarrow> c = col)"
  shows "cleanData H (Rows rows) opts = Inl TypeError"
proof (cases "stage1 H opts rows (initial_stats rows)")
  case (Inl e)
  then have "e = TypeError"
    by (auto simp: stage1_def split: if_splits dest: standardize_error)
  with Inl ne show ?thesis by (simp add: cleanData_Rows)
next
  case (Inr x)
  obtain data1 st1 where x: "x = (data1, st1)" by (cases x)
  have "\<exists>c. data1 \<noteq> [] \<and> c \<in> set (obj_keys (hd data1))
            \<and> (\<forall>r\<in>set data1. is_missing (row_get r c))"
  proof (cases "standardizeColumnNames opts")
    case True
    with Inr x have s: "standardize H rows (initial_stats rows) = Inr (data1, st1)"
      by (simp add: stage1_def)
    from True inj have "\<forall>c\<in>set (obj_keys (hd rows)). clean_name c = clean_name col \<longrightarrow> c = col"
      by simp
    from standardize_keeps_column [OF s col this] mis show ?thesis by blast
  next
    case False
    with Inr x have "data1 = rows" by (simp add: stage1_def)
    with ne col mis show ?thesis by blast
  qed
  then obtain c where c: "data1 \<noteq> []" "c \<in> set (obj_keys (hd data1))"
    "\<forall>r\<in>set data1. is_missing (row_get r c)" by blast
  from impute_empty_column_throws [OF strat c, of H "nullValuesFixed st1"]
  show ?thesis using Inr x ne by (simp add: cleanData_Rows)
qed


theorem empty_column_throws_witness:
  "cleanData js_host (Rows [[(''a'', JStr [])]]) (default_options Mean) = Inl TypeError"
proof -
  have 1: "missingValueStrategy (default_options Mean) \<noteq> Constant"
    by (simp add: default_options_def)
  have 2: "[[(''a'', JStr [])]] \<noteq> []" by simp
  have 3: "''a'' \<in> set (obj_keys (hd [[(''a'', JStr [])]]))" by (simp add: obj_keys_def)
  have 4: "\<forall>r\<in>set [[(''a'', JStr [])]]. is_missing (row_get r ''a'')"
    by (simp add: row_get_def is_missing_def)
  have 5: "standardizeColumnNames (default_options Mean) \<longrightarrow>
       (\<forall>c\<in>set (obj_keys (hd [[(''a'', JStr [])]])). clean_name c = clean_name ''a'' \<longrightarrow> c = ''a'')"
    by (simp add: obj_keys_def)
  show ?thesis by (rule empty_column_throws [OF 1 2 3 4 5])
qed

text \<open>The three strategies on one row with one empty cell, under the default options.\<close>

lemma empty_column_defaults:
  "cleanData H (Rows [[(''a'', JStr [])]]) (default_options Mean) = Inl TypeError
   \<and> cleanData H (Rows [[(''a'', JStr [])]]) (default_options Median) = Inl TypeError
   \<and> cleanData H (Rows [[(''a'', JStr [])]]) (default_options Mode) = Inl TypeError"
  by code_simp

end
